theory Spec2Isabelle
  imports Complex_Main "HOL-Library.Stream" "HOL-Library.Multiset"
begin

section \<open>The rational-function question engine (function\_generator.py)\<close>

text \<open>
  A shallow embedding of \<^verbatim>\<open>RationalFunctionGenerator\<close>: the difficulty table,
  the generator of rational functions, the analyzer and the four question builders.
  Three things the Python code takes from its environment are made explicit:
  \<^item> the process-wide random source is a stream of raw integer draws; every call of
    \<^verbatim>\<open>random.randint\<close>, \<^verbatim>\<open>random.random\<close>, \<^verbatim>\<open>random.choice\<close> consumes one
    draw, \<^verbatim>\<open>random.shuffle\<close> one draw per swap;
  \<^item> the symbolic library (\<^verbatim>\<open>solve\<close>, \<^verbatim>\<open>limit\<close>, \<^verbatim>\<open>simplify\<close>, substitution
    and printing) is a record of functions, the \<open>engine\<close>, whose \<^verbatim>\<open>solve\<close>,
    \<^verbatim>\<open>limit\<close> and evaluation may raise;
  \<^item> Python floats are exact rationals (the roots the generator produces are
    integers in \<open>[-5, 5]\<close>, where \<^verbatim>\<open>float\<close> is exact), and the decimal rendering of a
    float is a parameter \<open>fs\<close> of the functions that print.
  A \<^verbatim>\<open>while\<close> loop that resamples is a \<^theory_text>\<open>partial_function\<close> in the option
  monad: \<open>None\<close> is a run that never leaves the loop.
\<close>

subsection \<open>Exceptions\<close>

datatype error = ValueError | KeyError | TypeError | SolveError | LimitError

subsection \<open>The random source\<close>

type_synonym rng = "int stream"

text \<open>\<^verbatim>\<open>random.randint(a, b)\<close>, for \<open>a \<le> b\<close> (an empty range raises \<^verbatim>\<open>ValueError\<close>;
  the callers whose bounds are not constants check it).\<close>

definition randint :: "int \<Rightarrow> int \<Rightarrow> rng \<Rightarrow> int \<times> rng" where
  "randint a b s = (a + shd s mod (b - a + 1), stl s)"

text \<open>\<^verbatim>\<open>random.random()\<close>: a multiple of \<open>2^-53\<close> in \<open>[0, 1)\<close>.\<close>

definition random_unit :: "rng \<Rightarrow> rat \<times> rng" where
  "random_unit s = (of_int (shd s mod 2 ^ 53) / 2 ^ 53, stl s)"

definition randbelow :: "nat \<Rightarrow> rng \<Rightarrow> nat \<times> rng" where
  "randbelow n s = (nat (shd s mod int n), stl s)"

text \<open>\<^verbatim>\<open>random.choice(seq)\<close> is \<^verbatim>\<open>seq[randbelow(len(seq))]\<close>.\<close>

definition choice :: "'a list \<Rightarrow> rng \<Rightarrow> 'a \<times> rng" where
  "choice xs s = (case randbelow (length xs) s of (j, s') \<Rightarrow> (xs ! j, s'))"

text \<open>\<^verbatim>\<open>random.shuffle(x)\<close>: for \<open>i\<close> from \<open>len(x) - 1\<close> down to \<open>1\<close>, swap
  \<open>x[i]\<close> with \<open>x[randbelow(i + 1)]\<close>.\<close>

fun shuffle_from :: "nat \<Rightarrow> 'a list \<Rightarrow> rng \<Rightarrow> 'a list \<times> rng" where
  "shuffle_from 0 xs s = (xs, s)"
| "shuffle_from (Suc i) xs s =
     (case randbelow (Suc (Suc i)) s of
        (j, s') \<Rightarrow> shuffle_from i (xs[Suc i := xs ! j, j := xs ! Suc i]) s')"

definition shuffle :: "'a list \<Rightarrow> rng \<Rightarrow> 'a list \<times> rng" where
  "shuffle xs s = shuffle_from (length xs - 1) xs s"

text \<open>A stream is fair for a range of \<open>k\<close> values when each of the \<open>k\<close> residues
  keeps appearing: what a resampling loop needs to come to an end.\<close>

definition fair :: "nat \<Rightarrow> rng \<Rightarrow> bool" where
  "fair k s \<longleftrightarrow> (\<forall>n v. v < k \<longrightarrow> (\<exists>m. n \<le> m \<and> nat (s !! m mod int k) = v))"

text \<open>The loop \<^verbatim>\<open>while bad(w): w = random.randint(lo, hi)\<close>.\<close>

partial_function (option) resample ::
  "(int \<Rightarrow> bool) \<Rightarrow> int \<Rightarrow> int \<Rightarrow> int \<Rightarrow> rng \<Rightarrow> (int \<times> rng) option" where
  "resample bad lo hi w s =
     (if bad w then (case randint lo hi s of (w', s') \<Rightarrow> resample bad lo hi w' s')
      else Some (w, s))"

subsection \<open>Python values and their printing\<close>

datatype number = IntNum int | FloatNum rat

fun num_val :: "number \<Rightarrow> rat" where
  "num_val (IntNum i) = of_int i"
| "num_val (FloatNum q) = q"

text \<open>\<^verbatim>\<open>n + k\<close> for an int \<open>k\<close>: an int stays an int, a float stays a float.\<close>

fun num_add :: "number \<Rightarrow> int \<Rightarrow> number" where
  "num_add (IntNum i) k = IntNum (i + k)"
| "num_add (FloatNum q) k = FloatNum (q + of_int k)"

datatype pyval = PyStr string | PyNum number | PyList "pyval list"

text \<open>Python's \<^verbatim>\<open>==\<close>: numbers by value (\<^verbatim>\<open>1 == 1.0\<close>), lists element by element,
  values of different kinds are unequal (\<^verbatim>\<open>1 == [1]\<close> is false).\<close>

fun py_eq :: "pyval \<Rightarrow> pyval \<Rightarrow> bool" and py_eq_list :: "pyval list \<Rightarrow> pyval list \<Rightarrow> bool" where
  "py_eq (PyStr a) (PyStr b) = (a = b)"
| "py_eq (PyNum a) (PyNum b) = (num_val a = num_val b)"
| "py_eq (PyList xs) (PyList ys) = py_eq_list xs ys"
| "py_eq _ _ = False"
| "py_eq_list [] [] = True"
| "py_eq_list (x # xs) (y # ys) = (py_eq x y \<and> py_eq_list xs ys)"
| "py_eq_list _ _ = False"

text \<open>\<^verbatim>\<open>v in xs\<close> for a Python list \<open>xs\<close>.\<close>

definition py_in :: "pyval \<Rightarrow> pyval list \<Rightarrow> bool" where
  "py_in v xs = list_ex (py_eq v) xs"

fun nat_str :: "nat \<Rightarrow> string" where
  "nat_str n =
     (if n < 10 then [''0123456789'' ! n]
      else nat_str (n div 10) @ [''0123456789'' ! (n mod 10)])"

declare nat_str.simps [simp del]

definition int_str :: "int \<Rightarrow> string" where
  "int_str i = (if i < 0 then CHR ''-'' # nat_str (nat (- i)) else nat_str (nat i))"

fun num_str :: "(rat \<Rightarrow> string) \<Rightarrow> number \<Rightarrow> string" where
  "num_str fs (IntNum i) = int_str i"
| "num_str fs (FloatNum q) = fs q"

fun join_comma :: "string list \<Rightarrow> string" where
  "join_comma [] = []"
| "join_comma [x] = x"
| "join_comma (x # y # ys) = x @ '', '' @ join_comma (y # ys)"

text \<open>\<^verbatim>\<open>str(v)\<close>; the elements of a list are printed by \<^verbatim>\<open>repr\<close>, which quotes a
  string.\<close>

fun py_str :: "(rat \<Rightarrow> string) \<Rightarrow> pyval \<Rightarrow> string"
  and py_repr :: "(rat \<Rightarrow> string) \<Rightarrow> pyval \<Rightarrow> string"
  and py_reprs :: "(rat \<Rightarrow> string) \<Rightarrow> pyval list \<Rightarrow> string list" where
  "py_str fs (PyStr a) = a"
| "py_str fs (PyNum n) = num_str fs n"
| "py_str fs (PyList xs) = ''['' @ join_comma (py_reprs fs xs) @ '']''"
| "py_repr fs (PyStr a) = [CHR 0x27] @ a @ [CHR 0x27]"
| "py_repr fs (PyNum n) = num_str fs n"
| "py_repr fs (PyList xs) = ''['' @ join_comma (py_reprs fs xs) @ '']''"
| "py_reprs fs [] = []"
| "py_reprs fs (x # xs) = py_repr fs x # py_reprs fs xs"

subsection \<open>Polynomials as the generator builds them\<close>

text \<open>
  The symbolic expressions of the program are products: \<^verbatim>\<open>polynomial = 1\<close>, then
  \<^verbatim>\<open>polynomial *= self.x - a\<close> and \<^verbatim>\<open>polynomial *= coeff * (self.x ** k)\<close>.
\<close>

datatype polynomial =
    Const1
  | Linear int
  | Monomial int nat
  | Times polynomial polynomial

fun eval :: "polynomial \<Rightarrow> rat \<Rightarrow> rat" where
  "eval Const1 x = 1"
| "eval (Linear a) x = x - of_int a"
| "eval (Monomial c k) x = of_int c * x ^ k"
| "eval (Times p q) x = eval p x * eval q x"

text \<open>\<^verbatim>\<open>p == 0\<close>: a product is the expression \<open>0\<close> exactly when a numeric factor
  \<open>0\<close> was multiplied in.\<close>

fun is_zero :: "polynomial \<Rightarrow> bool" where
  "is_zero Const1 = False"
| "is_zero (Linear a) = False"
| "is_zero (Monomial c k) = (c = 0)"
| "is_zero (Times p q) = (is_zero p \<or> is_zero q)"

subsection \<open>The difficulty table\<close>

record config =
  max_degree :: int
  max_factors :: int
  holes_prob :: rat

definition difficulty_configs :: "int \<rightharpoonup> config" where
  "difficulty_configs =
     [1 \<mapsto> \<lparr>max_degree = 2, max_factors = 2, holes_prob = 3 / 10\<rparr>,
      2 \<mapsto> \<lparr>max_degree = 3, max_factors = 3, holes_prob = 4 / 10\<rparr>,
      3 \<mapsto> \<lparr>max_degree = 4, max_factors = 4, holes_prob = 5 / 10\<rparr>,
      4 \<mapsto> \<lparr>max_degree = 5, max_factors = 5, holes_prob = 6 / 10\<rparr>,
      5 \<mapsto> \<lparr>max_degree = 6, max_factors = 6, holes_prob = 7 / 10\<rparr>]"

subsection \<open>The symbolic engine\<close>

datatype root = RealRoot rat | NonReal rat rat

text \<open>What \<^verbatim>\<open>limit(num/den, x, oo)\<close> can be: a finite real number, \<^verbatim>\<open>oo\<close>,
  \<^verbatim>\<open>-oo\<close>, or anything else (\<^verbatim>\<open>nan\<close>, \<^verbatim>\<open>zoo\<close>, a non-real value).\<close>

datatype limit_value = Finite rat | PlusInfinity | MinusInfinity | OtherLimit

record 'f engine =
  solve :: "polynomial \<Rightarrow> error + root list"
  limit_oo :: "polynomial \<Rightarrow> polynomial \<Rightarrow> error + limit_value"
  simplify :: "polynomial \<Rightarrow> polynomial \<Rightarrow> 'f"
  subs0_float :: "'f \<Rightarrow> error + rat"
  str_of :: "'f \<Rightarrow> string"
  latex_of :: "'f \<Rightarrow> string"

text \<open>The expressions of type \<open>polynomial\<close> are products of linear factors and
  monomials, and the generator builds nothing else. On these the library's
  \<^verbatim>\<open>solve\<close> returns a list of roots; an engine of which this holds:\<close>

definition solves_products :: "'f engine \<Rightarrow> bool" where
  "solves_products E \<longleftrightarrow> (\<forall>p. \<exists>rs. solve E p = Inr rs)"

subsection \<open>generate\_function\<close>

record 'f function_dict =
  func :: 'f
  numerator :: polynomial
  denominator :: polynomial
  function_str :: string
  latex :: string

definition generate_linear_factor :: "rng \<Rightarrow> polynomial \<times> rng" where
  "generate_linear_factor s = (case randint (- 5) 5 s of (a, s') \<Rightarrow> (Linear a, s'))"

text \<open>The loop \<^verbatim>\<open>for _ in range(factors)\<close> of \<^verbatim>\<open>_generate_polynomial\<close>.\<close>

fun multiply_factors :: "nat \<Rightarrow> polynomial \<Rightarrow> rng \<Rightarrow> polynomial \<times> rng" where
  "multiply_factors 0 polynomial s = (polynomial, s)"
| "multiply_factors (Suc n) polynomial s =
     (case generate_linear_factor s of
        (factor, s') \<Rightarrow> multiply_factors n (Times polynomial factor) s')"

definition generate_polynomial :: "int \<Rightarrow> int \<Rightarrow> rng \<Rightarrow> error + polynomial \<times> rng" where
  "generate_polynomial max_deg max_fac s =
     (if max_deg < 1 then Inl ValueError
      else case randint 1 max_deg s of (degree, s1) \<Rightarrow>
        if min max_fac degree < 1 then Inl ValueError
        else case randint 1 (min max_fac degree) s1 of (factors, s2) \<Rightarrow>
          case multiply_factors (nat factors) Const1 s2 of (polynomial, s3) \<Rightarrow>
            let remaining_degree = degree - factors in
            if remaining_degree > 0 then
              case randint (- 5) 5 s3 of (coeff, s4) \<Rightarrow>
                let coeff = (if coeff = 0 then 1 else coeff) in
                Inr (Times polynomial (Monomial coeff (nat remaining_degree)), s4)
            else Inr (polynomial, s3))"

text \<open>The loop \<^verbatim>\<open>while denominator == 0\<close> of \<^verbatim>\<open>generate_function\<close>.\<close>

partial_function (option) regenerate_denominator ::
  "int \<Rightarrow> int \<Rightarrow> polynomial \<Rightarrow> rng \<Rightarrow> (error + polynomial \<times> rng) option" where
  "regenerate_denominator max_deg max_fac den s =
     (if is_zero den then
        (case generate_polynomial max_deg max_fac s of
           Inl e \<Rightarrow> Some (Inl e)
         | Inr (den', s') \<Rightarrow> regenerate_denominator max_deg max_fac den' s')
      else Some (Inr (den, s)))"

definition generate_function ::
  "'f engine \<Rightarrow> int \<Rightarrow> rng \<Rightarrow> (error + 'f function_dict \<times> rng) option" where
  "generate_function E difficulty s =
     (case difficulty_configs 1 of
        None \<Rightarrow> Some (Inl KeyError)
      | Some level1 \<Rightarrow>
        (let cfg = (case difficulty_configs difficulty of Some c \<Rightarrow> c | None \<Rightarrow> level1) in
         (case generate_polynomial (max_degree cfg) (max_factors cfg) s of
            Inl e \<Rightarrow> Some (Inl e)
          | Inr (num, s1) \<Rightarrow>
            (case generate_polynomial (max_degree cfg) (max_factors cfg) s1 of
               Inl e \<Rightarrow> Some (Inl e)
             | Inr (den0, s2) \<Rightarrow>
               (case regenerate_denominator (max_degree cfg) (max_factors cfg) den0 s2 of
                  None \<Rightarrow> None
                | Some (Inl e) \<Rightarrow> Some (Inl e)
                | Some (Inr (den, s3)) \<Rightarrow>
                  (case random_unit s3 of (u, s4) \<Rightarrow>
                     (let (num', den', s5) =
                            (if u < holes_prob cfg then
                               (case generate_linear_factor s4 of
                                  (hole_factor, s5) \<Rightarrow>
                                    (Times num hole_factor, Times den hole_factor, s5))
                             else (num, den, s4));
                          simplified = simplify E num' den'
                      in Some (Inr (\<lparr>func = simplified, numerator = num',
                                     denominator = den',
                                     function_str = str_of E simplified,
                                     latex = latex_of E simplified\<rparr>, s5)))))))))"

subsection \<open>analyze\_function\<close>

record analysis =
  vertical_asymptotes :: "rat list"
  holes :: "rat list"
  horizontal_asymptote :: "number option"
  x_intercepts :: "rat list"
  y_intercept :: "rat option"

text \<open>The loop over \<^verbatim>\<open>den_roots\<close>: a real root that is \<^verbatim>\<open>in num_roots\<close> (equality of
  the symbolic values) is appended to \<open>holes\<close>, any other real root to
  \<open>vertical_asymptotes\<close>; \<^verbatim>\<open>float(root)\<close> is taken of a real root only.\<close>

fun classify_roots :: "root list \<Rightarrow> root list \<Rightarrow> rat list \<Rightarrow> rat list \<Rightarrow> rat list \<times> rat list" where
  "classify_roots [] num_roots vas hs = (vas, hs)"
| "classify_roots (RealRoot r # rest) num_roots vas hs =
     (if RealRoot r \<in> set num_roots then classify_roots rest num_roots vas (hs @ [r])
      else classify_roots rest num_roots (vas @ [r]) hs)"
| "classify_roots (NonReal a b # rest) num_roots vas hs = classify_roots rest num_roots vas hs"

text \<open>\<^verbatim>\<open>r == h\<close> for a symbolic exact number \<open>r\<close> and a Python float \<open>h\<close>. The
  symbolic library the program runs on (SymPy from 1.13 on) never finds one of its
  exact numbers equal to a float, whatever their values.\<close>

definition sym_eq_float :: "root \<Rightarrow> rat \<Rightarrow> bool" where
  "sym_eq_float r h = False"

text \<open>The loop over \<^verbatim>\<open>num_roots\<close>: \<^verbatim>\<open>root.is_real and root not in holes\<close>, where
  \<open>holes\<close> holds the floats stored by the first loop.\<close>

fun collect_intercepts :: "root list \<Rightarrow> rat list \<Rightarrow> rat list \<Rightarrow> rat list" where
  "collect_intercepts [] hs xs = xs"
| "collect_intercepts (RealRoot r # rest) hs xs =
     (if \<not> list_ex (sym_eq_float (RealRoot r)) hs then collect_intercepts rest hs (xs @ [r])
      else collect_intercepts rest hs xs)"
| "collect_intercepts (NonReal a b # rest) hs xs = collect_intercepts rest hs xs"

definition find_horizontal_asymptote ::
  "'f engine \<Rightarrow> polynomial \<Rightarrow> polynomial \<Rightarrow> number option" where
  "find_horizontal_asymptote E num den =
     (case limit_oo E num den of
        Inl e \<Rightarrow> Some (IntNum 0)
      | Inr (Finite v) \<Rightarrow> Some (FloatNum v)
      | Inr PlusInfinity \<Rightarrow> None
      | Inr MinusInfinity \<Rightarrow> None
      | Inr OtherLimit \<Rightarrow> Some (IntNum 0))"

definition analyze_function :: "'f engine \<Rightarrow> 'f function_dict \<Rightarrow> error + analysis" where
  "analyze_function E function_dict =
     (let num = numerator function_dict; den = denominator function_dict in
      (case solve E den of
         Inl e \<Rightarrow> Inl e
       | Inr den_roots \<Rightarrow>
         (case solve E num of
            Inl e \<Rightarrow> Inl e
          | Inr num_roots \<Rightarrow>
            (case classify_roots den_roots num_roots [] [] of (vas, hs) \<Rightarrow>
               Inr \<lparr>vertical_asymptotes = vas,
                    holes = hs,
                    horizontal_asymptote = find_horizontal_asymptote E num den,
                    x_intercepts = collect_intercepts num_roots hs [],
                    y_intercept =
                      (case subs0_float E (func function_dict) of
                         Inl e \<Rightarrow> None
                       | Inr y \<Rightarrow> Some y)\<rparr>))))"

subsection \<open>The question builders\<close>

record mc_question =
  question :: string
  choices :: "string list"
  correct_answer :: string
  explanation :: string

definition float_list :: "rat list \<Rightarrow> pyval list" where
  "float_list xs = map (\<lambda>q. PyNum (FloatNum q)) xs"

definition int_val :: "int \<Rightarrow> pyval" where
  "int_val i = PyNum (IntNum i)"

text \<open>The loop \<^verbatim>\<open>for _ in range(3)\<close> of the builders: draw a candidate in
  \<open>[lo, hi]\<close>, resample it while \<open>bad wrong_answers\<close> holds, append \<open>mk\<close> of it.\<close>

fun wrong_answers_loop ::
  "nat \<Rightarrow> (pyval list \<Rightarrow> int \<Rightarrow> bool) \<Rightarrow> (int \<Rightarrow> pyval) \<Rightarrow> int \<Rightarrow> int \<Rightarrow>
   pyval list \<Rightarrow> rng \<Rightarrow> (pyval list \<times> rng) option" where
  "wrong_answers_loop 0 bad mk lo hi wrong_answers s = Some (wrong_answers, s)"
| "wrong_answers_loop (Suc n) bad mk lo hi wrong_answers s =
     (case randint lo hi s of (w, s1) \<Rightarrow>
        (case resample (bad wrong_answers) lo hi w s1 of
           None \<Rightarrow> None
         | Some (wrong, s2) \<Rightarrow>
             wrong_answers_loop n bad mk lo hi (wrong_answers @ [mk wrong]) s2))"

text \<open>\<^verbatim>\<open>str(choice) if choice != "None" else "None"\<close>\<close>

definition render :: "(rat \<Rightarrow> string) \<Rightarrow> pyval \<Rightarrow> string" where
  "render fs c = (if \<not> py_eq c (PyStr ''None'') then py_str fs c else ''None'')"

text \<open>In \<^verbatim>\<open>_generate_va_question\<close> the candidate \<open>wrong\<close> is an int: it is looked up
  among the floats of the correct answer, and among \<open>wrong_answers\<close>, whose elements
  are the one-element lists \<^verbatim>\<open>[wrong]\<close>.\<close>

definition generate_va_question ::
  "(rat \<Rightarrow> string) \<Rightarrow> 'f function_dict \<Rightarrow> analysis \<Rightarrow> rng \<Rightarrow> (mc_question \<times> rng) option" where
  "generate_va_question fs function_dict a s =
     (let correct = vertical_asymptotes a in
      (case wrong_answers_loop 3
              (\<lambda>wrong_answers wrong.
                 py_in (int_val wrong) (float_list correct) \<or> py_in (int_val wrong) wrong_answers)
              (\<lambda>wrong. PyList [int_val wrong]) (- 5) 5 [] s of
         None \<Rightarrow> None
       | Some (sampled, s1) \<Rightarrow>
           (let (correct_ans, wrong_answers) =
                  (if correct = [] then
                     (PyStr ''None'',
                      [PyList [int_val (- 1)], PyList [int_val 0], PyList [int_val 1]])
                   else (PyList (float_list correct), sampled))
            in (case shuffle (correct_ans # wrong_answers) s1 of (cs, s2) \<Rightarrow>
                  Some (\<lparr>question = ''What are the vertical asymptotes of f(x) = ''
                                      @ function_str function_dict @ ''?'',
                          choices = map (render fs) cs,
                          correct_answer = render fs correct_ans,
                          explanation = ''Vertical asymptotes occur where the denominator equals zero but the numerator doesn't.''\<rparr>,
                        s2)))))"

definition generate_ha_question ::
  "(rat \<Rightarrow> string) \<Rightarrow> 'f function_dict \<Rightarrow> analysis \<Rightarrow> rng \<Rightarrow> (mc_question \<times> rng) option" where
  "generate_ha_question fs function_dict a s =
     (case (case horizontal_asymptote a of
              None \<Rightarrow> Some ((PyStr ''None'', [int_val 0, int_val 1, int_val (- 1)]), s)
            | Some correct \<Rightarrow>
                (case wrong_answers_loop 3
                        (\<lambda>wrong_answers k.
                           py_eq (PyNum (num_add correct k)) (PyNum correct)
                           \<or> py_in (PyNum (num_add correct k)) wrong_answers)
                        (\<lambda>k. PyNum (num_add correct k)) (- 3) 3 [] s of
                   None \<Rightarrow> None
                 | Some (sampled, s1) \<Rightarrow> Some ((PyNum correct, sampled), s1))) of
        None \<Rightarrow> None
      | Some ((correct_ans, wrong_answers), s1) \<Rightarrow>
          (case shuffle (correct_ans # wrong_answers) s1 of (cs, s2) \<Rightarrow>
             Some (\<lparr>question = ''What is the horizontal asymptote of f(x) = ''
                                 @ function_str function_dict @ ''?'',
                     choices = map (render fs) cs,
                     correct_answer = render fs correct_ans,
                     explanation = ''Horizontal asymptotes depend on the degrees of numerator and denominator.''\<rparr>,
                   s2)))"

text \<open>In \<^verbatim>\<open>_generate_x_intercept_question\<close> and \<^verbatim>\<open>_generate_holes_question\<close> the
  candidate is the list \<^verbatim>\<open>[random.randint(-5, 5)]\<close>, compared with the whole correct
  answer and looked up among \<open>wrong_answers\<close>.\<close>

definition generate_x_intercept_question ::
  "(rat \<Rightarrow> string) \<Rightarrow> 'f function_dict \<Rightarrow> analysis \<Rightarrow> rng \<Rightarrow> (mc_question \<times> rng) option" where
  "generate_x_intercept_question fs function_dict a s =
     (let correct = x_intercepts a in
      (case wrong_answers_loop 3
              (\<lambda>wrong_answers w.
                 py_eq (PyList [int_val w]) (PyList (float_list correct))
                 \<or> py_in (PyList [int_val w]) wrong_answers)
              (\<lambda>w. PyList [int_val w]) (- 5) 5 [] s of
         None \<Rightarrow> None
       | Some (sampled, s1) \<Rightarrow>
           (let (correct_ans, wrong_answers) =
                  (if correct = [] then
                     (PyStr ''None'',
                      [PyList [int_val (- 1)], PyList [int_val 0], PyList [int_val 1]])
                   else (PyList (float_list correct), sampled))
            in (case shuffle (correct_ans # wrong_answers) s1 of (cs, s2) \<Rightarrow>
                  Some (\<lparr>question = ''What are the x-intercepts of f(x) = ''
                                      @ function_str function_dict @ ''?'',
                          choices = map (render fs) cs,
                          correct_answer = render fs correct_ans,
                          explanation = ''X-intercepts occur where the numerator equals zero but the denominator doesn't.''\<rparr>,
                        s2)))))"

definition generate_holes_question ::
  "(rat \<Rightarrow> string) \<Rightarrow> 'f function_dict \<Rightarrow> analysis \<Rightarrow> rng \<Rightarrow> (mc_question \<times> rng) option" where
  "generate_holes_question fs function_dict a s =
     (let correct = holes a in
      (case wrong_answers_loop 3
              (\<lambda>wrong_answers w.
                 py_eq (PyList [int_val w]) (PyList (float_list correct))
                 \<or> py_in (PyList [int_val w]) wrong_answers)
              (\<lambda>w. PyList [int_val w]) (- 5) 5 [] s of
         None \<Rightarrow> None
       | Some (sampled, s1) \<Rightarrow>
           (let (correct_ans, wrong_answers) =
                  (if correct = [] then
                     (PyStr ''None'',
                      [PyList [int_val (- 1)], PyList [int_val 0], PyList [int_val 1]])
                   else (PyList (float_list correct), sampled))
            in (case shuffle (correct_ans # wrong_answers) s1 of (cs, s2) \<Rightarrow>
                  Some (\<lparr>question = ''Where are the holes in f(x) = ''
                                      @ function_str function_dict @ ''?'',
                          choices = map (render fs) cs,
                          correct_answer = render fs correct_ans,
                          explanation = ''Holes occur where both numerator and denominator equal zero.''\<rparr>,
                        s2)))))"

subsection \<open>generate\_multiple\_choice\_question\<close>

definition question_types :: "string list" where
  "question_types = [''vertical_asymptotes'', ''horizontal_asymptote'', ''x_intercepts'', ''holes'']"

definition questions ::
  "string \<rightharpoonup> ((rat \<Rightarrow> string) \<Rightarrow> 'f function_dict \<Rightarrow> analysis \<Rightarrow> rng \<Rightarrow> (mc_question \<times> rng) option)" where
  "questions =
     [''vertical_asymptotes'' \<mapsto> generate_va_question,
      ''horizontal_asymptote'' \<mapsto> generate_ha_question,
      ''x_intercepts'' \<mapsto> generate_x_intercept_question,
      ''holes'' \<mapsto> generate_holes_question]"

text \<open>\<^verbatim>\<open>generate_multiple_choice_question\<close> and \<^verbatim>\<open>_generate_random_question\<close> call
  each other; the second is the \<open>None\<close> branch here. The argument \<open>question_type\<close>
  is a string or Python's \<^verbatim>\<open>None\<close> (which is what the callers pass for a random
  question), and \<^verbatim>\<open>question_type in questions\<close> is the lookup.\<close>

partial_function (option) generate_multiple_choice_question ::
  "(rat \<Rightarrow> string) \<Rightarrow> 'f function_dict \<Rightarrow> analysis \<Rightarrow> string option \<Rightarrow> rng
     \<Rightarrow> (mc_question \<times> rng) option" where
  "generate_multiple_choice_question fs function_dict a question_type s =
     (case Option.bind question_type questions of
        Some builder \<Rightarrow> builder fs function_dict a s
      | None \<Rightarrow>
          (case choice question_types s of
             (qt, s') \<Rightarrow> generate_multiple_choice_question fs function_dict a (Some qt) s'))"

definition generate_random_question ::
  "(rat \<Rightarrow> string) \<Rightarrow> 'f function_dict \<Rightarrow> analysis \<Rightarrow> rng \<Rightarrow> (mc_question \<times> rng) option" where
  "generate_random_question fs function_dict a s =
     (case choice question_types s of
        (qt, s') \<Rightarrow> generate_multiple_choice_question fs function_dict a (Some qt) s')"

text \<open>The number an answer stands for: of a stored answer \<^verbatim>\<open>[w]\<close> or \<^verbatim>\<open>w\<close>, the
  candidate that it rules out.\<close>

fun answer_key :: "pyval \<Rightarrow> rat" where
  "answer_key (PyList [PyNum n]) = num_val n"
| "answer_key (PyNum n) = num_val n"
| "answer_key _ = 0"

subsection \<open>The claimed coefficient policy\<close>

text \<open>
  The specification words the coefficient of the monomial as "a nonzero integer in
  \<open>[-5, 5]\<close> (resample if 0)". This is that policy, to be compared with what
  \<open>generate_polynomial\<close> does.
\<close>

partial_function (option) resample_nonzero :: "rng \<Rightarrow> (int \<times> rng) option" where
  "resample_nonzero s =
     (case randint (- 5) 5 s of (c, s') \<Rightarrow> if c = 0 then resample_nonzero s' else Some (c, s'))"

subsection \<open>An exact engine for the generator's polynomials\<close>

text \<open>
  To run the model, the engine is instantiated on the expressions the generator
  builds: the roots of a product are read off its factors, the limit at infinity
  follows from degrees and leading coefficients, the value at \<open>0\<close> from the
  multiplicity of the root \<open>0\<close>. The quotient is kept as a pair; the two printing
  functions of this engine are placeholders.
\<close>

fun roots_of :: "polynomial \<Rightarrow> rat list" where
  "roots_of Const1 = []"
| "roots_of (Linear a) = [of_int a]"
| "roots_of (Monomial c k) = (if k = 0 then [] else [0])"
| "roots_of (Times p q) = roots_of p @ roots_of q"

fun degree :: "polynomial \<Rightarrow> nat" where
  "degree Const1 = 0"
| "degree (Linear a) = 1"
| "degree (Monomial c k) = k"
| "degree (Times p q) = degree p + degree q"

fun lead :: "polynomial \<Rightarrow> int" where
  "lead Const1 = 1"
| "lead (Linear a) = 1"
| "lead (Monomial c k) = c"
| "lead (Times p q) = lead p * lead q"

fun mult0 :: "polynomial \<Rightarrow> nat" where
  "mult0 Const1 = 0"
| "mult0 (Linear a) = (if a = 0 then 1 else 0)"
| "mult0 (Monomial c k) = k"
| "mult0 (Times p q) = mult0 p + mult0 q"

fun rest0 :: "polynomial \<Rightarrow> rat" where
  "rest0 Const1 = 1"
| "rest0 (Linear a) = (if a = 0 then 1 else - of_int a)"
| "rest0 (Monomial c k) = of_int c"
| "rest0 (Times p q) = rest0 p * rest0 q"

definition exact_solve :: "polynomial \<Rightarrow> error + root list" where
  "exact_solve p = Inr (if is_zero p then [] else map RealRoot (remdups (roots_of p)))"

definition exact_limit :: "polynomial \<Rightarrow> polynomial \<Rightarrow> error + limit_value" where
  "exact_limit num den =
     Inr (if is_zero den then OtherLimit
          else if is_zero num \<or> degree num < degree den then Finite 0
          else if degree num = degree den then Finite (of_int (lead num) / of_int (lead den))
          else if 0 < lead num * lead den then PlusInfinity
          else MinusInfinity)"

text \<open>\<^verbatim>\<open>float(func.subs(x, 0))\<close>: at a pole the value is \<^verbatim>\<open>zoo\<close>, whose conversion
  raises.\<close>

definition exact_subs0 :: "polynomial \<times> polynomial \<Rightarrow> error + rat" where
  "exact_subs0 f =
     (case f of (num, den) \<Rightarrow>
        if is_zero den \<or> mult0 num < mult0 den then Inl TypeError
        else if mult0 den < mult0 num then Inr 0
        else Inr (rest0 num / rest0 den))"

definition exact_engine :: "(polynomial \<times> polynomial) engine" where
  "exact_engine =
     \<lparr>solve = exact_solve, limit_oo = exact_limit, simplify = Pair,
      subs0_float = exact_subs0, str_of = (\<lambda>f. ''f''), latex_of = (\<lambda>f. ''f'')\<rparr>"

text \<open>An engine whose \<^verbatim>\<open>limit\<close> and whose evaluation at \<open>0\<close> raise.\<close>

definition failing_limit :: "polynomial \<Rightarrow> polynomial \<Rightarrow> error + limit_value" where
  "failing_limit num den = Inl LimitError"

definition failing_subs0 :: "polynomial \<times> polynomial \<Rightarrow> error + rat" where
  "failing_subs0 f = Inl TypeError"

definition degraded_engine :: "(polynomial \<times> polynomial) engine" where
  "degraded_engine = exact_engine\<lparr>limit_oo := failing_limit, subs0_float := failing_subs0\<rparr>"

text \<open>A float printer that is Python's on the integer-valued floats of small
  magnitude.\<close>

definition float_str :: "rat \<Rightarrow> string" where
  "float_str q = (if q = of_int \<lfloor>q\<rfloor> then int_str \<lfloor>q\<rfloor> @ ''.0'' else ''?'')"

subsection \<open>Concrete runs\<close>

text \<open>The draws that make level 1 produce \<open>(x - 2) / ((x - 2)(x - 3))\<close> with no
  hole factor added, the dictionary returned, and its analysis.\<close>

definition scenario_stream :: rng where
  "scenario_stream = 0 ## 0 ## 7 ## 1 ## 1 ## 7 ## 8 ## 2 ^ 52 ## sconst 0"

definition scenario_dict :: "(polynomial \<times> polynomial) function_dict" where
  "scenario_dict =
     \<lparr>func = (Times Const1 (Linear 2), Times (Times Const1 (Linear 2)) (Linear 3)),
      numerator = Times Const1 (Linear 2),
      denominator = Times (Times Const1 (Linear 2)) (Linear 3),
      function_str = ''f'', latex = ''f''\<rparr>"

definition scenario_analysis :: analysis where
  "scenario_analysis =
     \<lparr>vertical_asymptotes = [3], holes = [2], horizontal_asymptote = Some (FloatNum 0),
      x_intercepts = [2], y_intercept = Some (- 1 / 3)\<rparr>"

text \<open>The draws that make level 1 produce \<open>(x - 1) / x\<close>, which has a pole at \<open>0\<close>.\<close>

definition pole_stream :: rng where
  "pole_stream = 0 ## 0 ## 6 ## 0 ## 0 ## 5 ## 2 ^ 52 ## sconst 0"

definition pole_dict :: "(polynomial \<times> polynomial) function_dict" where
  "pole_dict =
     \<lparr>func = (Times Const1 (Linear 1), Times Const1 (Linear 0)),
      numerator = Times Const1 (Linear 1),
      denominator = Times Const1 (Linear 0),
      function_str = ''f'', latex = ''f''\<rparr>"

text \<open>\<open>2x(x - 1) / (x - 3)\<close>: the numerator has the larger degree.\<close>

definition steep_dict :: "(polynomial \<times> polynomial) function_dict" where
  "steep_dict =
     \<lparr>func = (Times (Times Const1 (Linear 1)) (Monomial 2 1), Times Const1 (Linear 3)),
      numerator = Times (Times Const1 (Linear 1)) (Monomial 2 1),
      denominator = Times Const1 (Linear 3),
      function_str = ''f'', latex = ''f''\<rparr>"

definition steep_analysis :: analysis where
  "steep_analysis =
     \<lparr>vertical_asymptotes = [3], holes = [], horizontal_asymptote = None,
      x_intercepts = [1, 0], y_intercept = Some 0\<rparr>"

text \<open>Degree 2, one factor \<open>x - 2\<close>, then the draw \<open>0\<close> for the coefficient,
  followed by a draw that would give \<open>3\<close>.\<close>

definition zero_draw_stream :: rng where
  "zero_draw_stream = 1 ## 0 ## 7 ## 5 ## 8 ## sconst 0"

text \<open>The stream \<open>0, 1, 2, \<dots>\<close>, which is fair for every range.\<close>

definition counting_stream :: rng where
  "counting_stream = siterate (\<lambda>x. x + 1) 0"

definition featureless_analysis :: analysis where
  "featureless_analysis =
     \<lparr>vertical_asymptotes = [], holes = [], horizontal_asymptote = None,
      x_intercepts = [], y_intercept = None\<rparr>"

section \<open>Properties\<close>

subsection \<open>Polynomials\<close>

lemma is_zero_eval: "is_zero p \<Longrightarrow> eval p x = 0"
  by (induction p) auto

lemma eval_zero_iff: "\<not> is_zero p \<Longrightarrow> eval p x = 0 \<longleftrightarrow> x \<in> set (roots_of p)"
  by (induction p) auto

text \<open>The test \<^verbatim>\<open>p == 0\<close> of the model holds exactly of the zero polynomial.\<close>

lemma is_zero_iff: "is_zero p \<longleftrightarrow> (\<forall>x. eval p x = 0)"
proof
  assume "is_zero p"
  then show "\<forall>x. eval p x = 0" by (simp add: is_zero_eval)
next
  assume a: "\<forall>x. eval p x = 0"
  show "is_zero p"
  proof (rule ccontr)
    assume nz: "\<not> is_zero p"
    have "finite (set (roots_of p))" by simp
    then obtain x where "x \<notin> set (roots_of p)"
      using ex_new_if_finite infinite_UNIV_char_0 by blast
    with nz have "eval p x \<noteq> 0" by (simp add: eval_zero_iff)
    with a show False by simp
  qed
qed

text \<open>The exact engine finds the rational roots, all of them.\<close>

lemma exact_solve_roots:
  "\<not> is_zero p \<Longrightarrow> exact_solve p = Inr rs \<Longrightarrow> RealRoot x \<in> set rs \<longleftrightarrow> eval p x = 0"
  by (auto simp: exact_solve_def eval_zero_iff)

subsection \<open>The difficulty table\<close>

lemma config_values:
  assumes "1 \<le> i" "i \<le> 5"
  shows "difficulty_configs i =
     Some \<lparr>max_degree = i + 1, max_factors = i + 1, holes_prob = 2 / 10 + 1 / 10 * of_int i\<rparr>"
proof -
  from assms have "i = 1 \<or> i = 2 \<or> i = 3 \<or> i = 4 \<or> i = 5" by arith
  then show ?thesis by (auto simp: difficulty_configs_def)
qed

lemma config_lookup:
  "difficulty_configs 1 = Some \<lparr>max_degree = 2, max_factors = 2, holes_prob = 3 / 10\<rparr>"
  by (simp add: difficulty_configs_def)

lemma config_ge1:
  "difficulty_configs d = Some c \<Longrightarrow> 1 \<le> max_degree c \<and> 1 \<le> max_factors c"
  by (auto simp: difficulty_configs_def split: if_splits)

lemma config_dom: "difficulty_configs d = None \<longleftrightarrow> \<not> (1 \<le> d \<and> d \<le> 5)"
proof -
  have "dom difficulty_configs = {1, 2, 3, 4, 5}" by (auto simp: difficulty_configs_def)
  moreover have "(1 \<le> d \<and> d \<le> 5) \<longleftrightarrow> d \<in> {1, 2, 3, 4, 5}" by auto
  ultimately show ?thesis by (metis domIff)
qed

text \<open>
  C10. The table is strictly monotone in the level: for levels \<open>i < j\<close> in \<open>1..5\<close>,
  level \<open>j\<close> has the larger \<open>max_degree\<close>, the larger \<open>max_factors\<close> and the larger
  \<open>holes_prob\<close>; the entries are \<open>level + 1\<close>, \<open>level + 1\<close> and \<open>0.2 + 0.1 \<sqdot> level\<close>
  (the decimal literals of the source read as exact fractions).
\<close>

theorem difficulty_configs_strictly_monotone:
  assumes "1 \<le> i" "i < j" "j \<le> 5"
  shows "\<exists>ci cj. difficulty_configs i = Some ci \<and> difficulty_configs j = Some cj
     \<and> max_degree ci < max_degree cj \<and> max_factors ci < max_factors cj
     \<and> holes_prob ci < holes_prob cj
     \<and> max_degree ci = i + 1 \<and> max_factors ci = i + 1
     \<and> holes_prob ci = 2 / 10 + 1 / 10 * of_int i
     \<and> max_degree cj = j + 1 \<and> max_factors cj = j + 1
     \<and> holes_prob cj = 2 / 10 + 1 / 10 * of_int j"
proof -
  have i: "1 \<le> i" "i \<le> 5" and j: "1 \<le> j" "j \<le> 5" using assms by auto
  show ?thesis using assms by (simp add: config_values[OF i] config_values[OF j])
qed

theorem difficulty_configs_strictly_monotone_witness:
  "(1::int) \<le> 2 \<and> (2::int) < 4 \<and> (4::int) \<le> 5
   \<and> (\<exists>ci cj. difficulty_configs 2 = Some ci \<and> difficulty_configs 4 = Some cj
        \<and> max_degree ci < max_degree cj \<and> max_factors ci < max_factors cj
        \<and> holes_prob ci < holes_prob cj
        \<and> max_degree ci = 3 \<and> max_factors ci = 3 \<and> holes_prob ci = 4 / 10
        \<and> max_degree cj = 5 \<and> max_factors cj = 5 \<and> holes_prob cj = 6 / 10)"
  using difficulty_configs_strictly_monotone[of 2 4] by simp

subsection \<open>The analyzer\<close>

lemma classify_roots_sets:
  "set (fst (classify_roots dr nr vas hs))
     = set vas \<union> {q. RealRoot q \<in> set dr \<and> RealRoot q \<notin> set nr}
   \<and> set (snd (classify_roots dr nr vas hs))
     = set hs \<union> {q. RealRoot q \<in> set dr \<and> RealRoot q \<in> set nr}"
  by (induction dr nr vas hs rule: classify_roots.induct) auto

lemma collect_intercepts_set:
  "set (collect_intercepts nr hs xs) = set xs \<union> {q. RealRoot q \<in> set nr}"
  by (induction nr hs xs rule: collect_intercepts.induct)
     (auto simp: sym_eq_float_def list_ex_iff)

lemma analyze_function_Inr:
  assumes "analyze_function E fd = Inr a"
  obtains dr nr where "solve E (denominator fd) = Inr dr" "solve E (numerator fd) = Inr nr"
    "vertical_asymptotes a = fst (classify_roots dr nr [] [])"
    "holes a = snd (classify_roots dr nr [] [])"
    "horizontal_asymptote a = find_horizontal_asymptote E (numerator fd) (denominator fd)"
    "x_intercepts a = collect_intercepts nr (holes a) []"
    "y_intercept a = (case subs0_float E (func fd) of Inl e \<Rightarrow> None | Inr y \<Rightarrow> Some y)"
  using assms
  by (auto simp: analyze_function_def Let_def split: sum.splits prod.splits)

text \<open>The only exceptions that leave \<open>analyze_function\<close> are those of \<^verbatim>\<open>solve\<close>.\<close>

lemma analyze_function_raises:
  "analyze_function E fd = Inl e \<longleftrightarrow>
     solve E (denominator fd) = Inl e
     \<or> ((\<exists>dr. solve E (denominator fd) = Inr dr) \<and> solve E (numerator fd) = Inl e)"
  by (auto simp: analyze_function_def Let_def split: sum.splits prod.splits)

lemma generate_scenario:
  "generate_function exact_engine 1 scenario_stream = Some (Inr (scenario_dict, sconst 0))"
  by (simp add: generate_function_def config_lookup generate_polynomial_def randint_def
      generate_linear_factor_def regenerate_denominator.simps random_unit_def
      exact_engine_def scenario_stream_def scenario_dict_def numeral_2_eq_2)

lemma analyze_scenario:
  "analyze_function exact_engine scenario_dict = Inr scenario_analysis"
  by (simp add: analyze_function_def exact_engine_def scenario_dict_def scenario_analysis_def
      exact_solve_def exact_limit_def exact_subs0_def find_horizontal_asymptote_def
      sym_eq_float_def)

lemma scenario_roots:
  "solve exact_engine (denominator scenario_dict) = Inr [RealRoot 2, RealRoot 3]"
  "solve exact_engine (numerator scenario_dict) = Inr [RealRoot 2]"
  by (simp_all add: exact_engine_def scenario_dict_def exact_solve_def)

lemma analyze_steep:
  "analyze_function exact_engine steep_dict = Inr steep_analysis"
  by (simp add: analyze_function_def exact_engine_def steep_dict_def steep_analysis_def
      exact_solve_def exact_limit_def exact_subs0_def find_horizontal_asymptote_def
      sym_eq_float_def)

lemma analyze_degraded:
  "analyze_function degraded_engine scenario_dict
     = Inr (scenario_analysis\<lparr>horizontal_asymptote := Some (IntNum 0), y_intercept := None\<rparr>)"
  by (simp add: analyze_function_def degraded_engine_def exact_engine_def scenario_dict_def
      scenario_analysis_def exact_solve_def failing_limit_def failing_subs0_def
      find_horizontal_asymptote_def sym_eq_float_def)

text \<open>Once its two \<^verbatim>\<open>solve\<close> calls have returned, \<open>analyze_function\<close> returns: a
  failure of the limit gives the horizontal asymptote \<open>0\<close>, a failure of the
  evaluation at \<open>0\<close> gives the none-marker for the y-intercept.\<close>

lemma analyze_function_returns:
  assumes "solve E (denominator fd) = Inr den_roots"
    and "solve E (numerator fd) = Inr num_roots"
  shows "\<exists>a. analyze_function E fd = Inr a
     \<and> ((\<exists>e. limit_oo E (numerator fd) (denominator fd) = Inl e)
            \<longrightarrow> horizontal_asymptote a = Some (IntNum 0))
     \<and> ((\<exists>e. subs0_float E (func fd) = Inl e) \<longrightarrow> y_intercept a = None)"
  using assms
  by (auto simp: analyze_function_def Let_def find_horizontal_asymptote_def split: prod.splits)

text \<open>
  C3. Every real root \<open>r\<close> of the denominator (as \<^verbatim>\<open>solve\<close> returns it) is put among
  the holes exactly when it is among the roots of the numerator, and among the
  vertical asymptotes otherwise; the test is equality of the exact values.
\<close>

theorem denominator_root_classified:
  assumes "analyze_function E fd = Inr a"
    and "solve E (denominator fd) = Inr den_roots"
    and "solve E (numerator fd) = Inr num_roots"
    and "RealRoot r \<in> set den_roots"
  shows "(r \<in> set (holes a) \<longleftrightarrow> RealRoot r \<in> set num_roots)
       \<and> (r \<in> set (vertical_asymptotes a) \<longleftrightarrow> RealRoot r \<notin> set num_roots)"
proof -
  from assms(1) obtain dr nr where
    "solve E (denominator fd) = Inr dr" "solve E (numerator fd) = Inr nr"
    and va: "vertical_asymptotes a = fst (classify_roots dr nr [] [])"
    and h: "holes a = snd (classify_roots dr nr [] [])"
    by (rule analyze_function_Inr)
  with assms(2,3) have "dr = den_roots" "nr = num_roots" by simp_all
  with va h assms(4) show ?thesis by (simp add: classify_roots_sets)
qed

theorem denominator_root_classified_witness:
  "analyze_function exact_engine scenario_dict = Inr scenario_analysis
   \<and> solve exact_engine (denominator scenario_dict) = Inr [RealRoot 2, RealRoot 3]
   \<and> solve exact_engine (numerator scenario_dict) = Inr [RealRoot 2]
   \<and> RealRoot 2 \<in> set [RealRoot 2, RealRoot 3]
   \<and> (2 \<in> set (holes scenario_analysis) \<longleftrightarrow> RealRoot 2 \<in> set [RealRoot 2])
   \<and> (2 \<in> set (vertical_asymptotes scenario_analysis) \<longleftrightarrow> RealRoot 2 \<notin> set [RealRoot 2])"
  using denominator_root_classified[OF analyze_scenario scenario_roots, of 2]
    analyze_scenario scenario_roots
  by simp

text \<open>With the exact engine the classification is about the roots of the two
  polynomials themselves.\<close>

lemma exact_classification:
  assumes "analyze_function exact_engine fd = Inr a"
    and "\<not> is_zero (numerator fd)" "\<not> is_zero (denominator fd)"
    and "eval (denominator fd) r = 0"
  shows "(r \<in> set (holes a) \<longleftrightarrow> eval (numerator fd) r = 0)
       \<and> (r \<in> set (vertical_asymptotes a) \<longleftrightarrow> eval (numerator fd) r \<noteq> 0)"
proof -
  from assms(1) obtain dr nr where
    dr: "exact_solve (denominator fd) = Inr dr" and nr: "exact_solve (numerator fd) = Inr nr"
    and va: "vertical_asymptotes a = fst (classify_roots dr nr [] [])"
    and h: "holes a = snd (classify_roots dr nr [] [])"
    by (rule analyze_function_Inr) (simp add: exact_engine_def)
  have "RealRoot r \<in> set dr" using exact_solve_roots[OF assms(3) dr] assms(4) by simp
  moreover have "RealRoot r \<in> set nr \<longleftrightarrow> eval (numerator fd) r = 0"
    using exact_solve_roots[OF assms(2) nr] by simp
  ultimately show ?thesis unfolding va h by (simp add: classify_roots_sets)
qed

text \<open>
  C4. The horizontal asymptote of the analysis is the three-way outcome of the limit
  of numerator over denominator at \<open>+\<infinity>\<close>: a finite real limit gives that value, a
  limit \<open>\<plusminus>\<infinity>\<close> gives the none-marker, any other outcome and any failure of the
  limit gives \<open>0\<close>.
\<close>

theorem horizontal_asymptote_three_way:
  assumes "analyze_function E fd = Inr a"
  shows "(\<forall>v. limit_oo E (numerator fd) (denominator fd) = Inr (Finite v)
              \<longrightarrow> horizontal_asymptote a = Some (FloatNum v))
       \<and> (limit_oo E (numerator fd) (denominator fd) = Inr PlusInfinity
            \<or> limit_oo E (numerator fd) (denominator fd) = Inr MinusInfinity
              \<longrightarrow> horizontal_asymptote a = None)
       \<and> (limit_oo E (numerator fd) (denominator fd) = Inr OtherLimit
            \<or> (\<exists>e. limit_oo E (numerator fd) (denominator fd) = Inl e)
              \<longrightarrow> horizontal_asymptote a = Some (IntNum 0))"
proof -
  from assms have "horizontal_asymptote a
      = find_horizontal_asymptote E (numerator fd) (denominator fd)"
    by (rule analyze_function_Inr)
  then show ?thesis by (auto simp: find_horizontal_asymptote_def)
qed

theorem horizontal_asymptote_three_way_witness:
  "(analyze_function exact_engine scenario_dict = Inr scenario_analysis
      \<and> limit_oo exact_engine (numerator scenario_dict) (denominator scenario_dict)
          = Inr (Finite 0)
      \<and> horizontal_asymptote scenario_analysis = Some (FloatNum 0))
   \<and> (analyze_function exact_engine steep_dict = Inr steep_analysis
      \<and> limit_oo exact_engine (numerator steep_dict) (denominator steep_dict)
          = Inr PlusInfinity
      \<and> horizontal_asymptote steep_analysis = None)
   \<and> (limit_oo degraded_engine (numerator scenario_dict) (denominator scenario_dict)
          = Inl LimitError
      \<and> (\<exists>a. analyze_function degraded_engine scenario_dict = Inr a
            \<and> horizontal_asymptote a = Some (IntNum 0)))"
proof -
  have 1: "limit_oo exact_engine (numerator scenario_dict) (denominator scenario_dict)
      = Inr (Finite 0)"
    by (simp add: exact_engine_def exact_limit_def scenario_dict_def)
  have 2: "limit_oo exact_engine (numerator steep_dict) (denominator steep_dict)
      = Inr PlusInfinity"
    by (simp add: exact_engine_def exact_limit_def steep_dict_def)
  have 3: "limit_oo degraded_engine (numerator scenario_dict) (denominator scenario_dict)
      = Inl LimitError"
    by (simp add: degraded_engine_def failing_limit_def)
  from horizontal_asymptote_three_way[OF analyze_scenario] 1
  have a: "horizontal_asymptote scenario_analysis = Some (FloatNum 0)" by simp
  from horizontal_asymptote_three_way[OF analyze_steep] 2
  have b: "horizontal_asymptote steep_analysis = None" by simp
  from horizontal_asymptote_three_way[OF analyze_degraded] 3
  have c: "horizontal_asymptote
      (scenario_analysis\<lparr>horizontal_asymptote := Some (IntNum 0), y_intercept := None\<rparr>)
      = Some (IntNum 0)" by simp
  from a b c 1 2 3 analyze_scenario analyze_steep analyze_degraded show ?thesis by simp
qed

text \<open>The holes and the vertical asymptotes are disjoint; the x-intercepts are all
  the real roots of the numerator, the holes among them.\<close>

lemma holes_not_asymptotes:
  assumes "analyze_function E fd = Inr a"
  shows "set (holes a) \<inter> set (vertical_asymptotes a) = {}"
proof -
  from assms obtain dr nr where
    "vertical_asymptotes a = fst (classify_roots dr nr [] [])"
    "holes a = snd (classify_roots dr nr [] [])"
    by (rule analyze_function_Inr)
  then show ?thesis by (auto simp: classify_roots_sets)
qed

lemma x_intercepts_all_real_roots:
  assumes "analyze_function E fd = Inr a"
  shows "\<exists>num_roots. solve E (numerator fd) = Inr num_roots
     \<and> set (x_intercepts a) = {r. RealRoot r \<in> set num_roots}
     \<and> set (holes a) \<subseteq> set (x_intercepts a)"
proof -
  from assms obtain dr nr where
    nr: "solve E (numerator fd) = Inr nr"
    and h: "holes a = snd (classify_roots dr nr [] [])"
    and x: "x_intercepts a = collect_intercepts nr (holes a) []"
    by (rule analyze_function_Inr)
  have "set (x_intercepts a) = {r. RealRoot r \<in> set nr}"
    unfolding x by (simp add: collect_intercepts_set)
  moreover have "set (holes a) \<subseteq> {r. RealRoot r \<in> set nr}"
    unfolding h by (auto simp: classify_roots_sets)
  ultimately show ?thesis using nr by simp
qed

text \<open>
  C5 fails on the code. For \<open>(x - 2) / ((x - 2)(x - 3))\<close>, which level 1 generates,
  the analysis has the hole \<open>2\<close> and the x-intercept \<open>2\<close>: the test
  \<^verbatim>\<open>root not in holes\<close> looks a symbolic number up among floats and excludes nothing.
\<close>

theorem hole_reported_as_x_intercept:
  "generate_function exact_engine 1 scenario_stream = Some (Inr (scenario_dict, sconst 0))
   \<and> analyze_function exact_engine scenario_dict = Inr scenario_analysis
   \<and> holes scenario_analysis = [2]
   \<and> x_intercepts scenario_analysis = [2]
   \<and> set (holes scenario_analysis) \<inter> set (x_intercepts scenario_analysis) = {2}"
  by (simp add: generate_function_def config_lookup generate_polynomial_def randint_def
      generate_linear_factor_def regenerate_denominator.simps random_unit_def
      scenario_stream_def numeral_2_eq_2
      analyze_function_def exact_engine_def scenario_dict_def scenario_analysis_def
      exact_solve_def exact_limit_def exact_subs0_def find_horizontal_asymptote_def
      sym_eq_float_def)

subsection \<open>The generator\<close>

lemma randint_range:
  assumes "a \<le> b"
  shows "a \<le> fst (randint a b s)" "fst (randint a b s) \<le> b" "snd (randint a b s) = stl s"
proof -
  have pos: "0 < b - a + 1" using assms by simp
  have "0 \<le> shd s mod (b - a + 1)" using pos by (rule pos_mod_sign)
  moreover have "shd s mod (b - a + 1) < b - a + 1" using pos by (rule pos_mod_bound)
  ultimately show "a \<le> fst (randint a b s)" "fst (randint a b s) \<le> b"
    by (simp_all add: randint_def)
  show "snd (randint a b s) = stl s" by (simp add: randint_def)
qed

lemma multiply_factors_nonzero:
  "\<not> is_zero p \<Longrightarrow> \<not> is_zero (fst (multiply_factors n p s))"
  by (induction n arbitrary: p s) (auto simp: generate_linear_factor_def split: prod.splits)

lemma generate_polynomial_total:
  assumes "1 \<le> max_deg" "1 \<le> max_fac"
  shows "\<exists>p s'. generate_polynomial max_deg max_fac s = Inr (p, s') \<and> \<not> is_zero p"
proof -
  obtain deg s1 where d: "randint 1 max_deg s = (deg, s1)" by (cases "randint 1 max_deg s")
  have dr: "1 \<le> deg" using randint_range(1)[OF assms(1), of s] d by simp
  then have m: "\<not> min max_fac deg < 1" using assms(2) by simp
  obtain factors s2 where f: "randint 1 (min max_fac deg) s1 = (factors, s2)"
    by (cases "randint 1 (min max_fac deg) s1")
  obtain q s3 where q: "multiply_factors (nat factors) Const1 s2 = (q, s3)"
    by (cases "multiply_factors (nat factors) Const1 s2")
  have qnz: "\<not> is_zero q" using multiply_factors_nonzero[of Const1 "nat factors" s2] q by simp
  obtain coeff s4 where c: "randint (- 5) 5 s3 = (coeff, s4)" by (cases "randint (- 5) 5 s3")
  show ?thesis
    using assms(1) m qnz
    by (simp add: generate_polynomial_def d f q c Let_def)
qed

text \<open>The loop leaves a nonzero denominator alone, and what it returns is nonzero.\<close>

lemma regenerate_denominator_nonzero:
  "\<not> is_zero den \<Longrightarrow> regenerate_denominator max_deg max_fac den s = Some (Inr (den, s))"
  by (simp add: regenerate_denominator.simps)

lemma regenerate_denominator_post:
  "regenerate_denominator max_deg max_fac den s = Some y \<Longrightarrow>
     (case y of Inl e \<Rightarrow> True | Inr r \<Rightarrow> \<not> is_zero (fst r))"
proof (induction rule: regenerate_denominator.raw_induct[rotated 1, consumes 1])
  case (1 f max_deg max_fac den s y)
  then show ?case by (fastforce split: if_splits sum.splits prod.splits)
qed

lemma regenerate_denominator_result:
  "regenerate_denominator max_deg max_fac den s = Some (Inr (den', s')) \<Longrightarrow> \<not> is_zero den'"
  by (drule regenerate_denominator_post) simp

text \<open>Entered with a zero denominator, the loop draws a new polynomial and stops.\<close>

lemma regenerate_denominator_zero:
  assumes "is_zero den" "1 \<le> max_deg" "1 \<le> max_fac"
  shows "\<exists>den' s'. regenerate_denominator max_deg max_fac den s = Some (Inr (den', s'))
           \<and> \<not> is_zero den' \<and> generate_polynomial max_deg max_fac s = Inr (den', s')"
proof -
  from generate_polynomial_total[OF assms(2,3), of s] obtain p s'
    where p: "generate_polynomial max_deg max_fac s = Inr (p, s')" "\<not> is_zero p" by blast
  then show ?thesis using assms(1)
    by (subst regenerate_denominator.simps) (simp add: regenerate_denominator_nonzero)
qed

lemma generate_function_total:
  "\<exists>fd s'. generate_function E d s = Some (Inr (fd, s')) \<and> \<not> is_zero (denominator fd)"
proof -
  define cfg where "cfg = (case difficulty_configs d of Some c \<Rightarrow> c
      | None \<Rightarrow> \<lparr>max_degree = 2, max_factors = 2, holes_prob = 3 / 10\<rparr>)"
  have b: "1 \<le> max_degree cfg" "1 \<le> max_factors cfg"
    using config_ge1[of d] by (auto simp: cfg_def split: option.splits)
  obtain num s1 where n: "generate_polynomial (max_degree cfg) (max_factors cfg) s = Inr (num, s1)"
    using generate_polynomial_total[OF b] by blast
  obtain den s2 where dn: "generate_polynomial (max_degree cfg) (max_factors cfg) s1 = Inr (den, s2)"
    "\<not> is_zero den"
    using generate_polynomial_total[OF b] by blast
  have r: "regenerate_denominator (max_degree cfg) (max_factors cfg) den s2 = Some (Inr (den, s2))"
    using dn(2) by (rule regenerate_denominator_nonzero)
  obtain u s4 where u: "random_unit s2 = (u, s4)" by (cases "random_unit s2")
  obtain h s5 where h: "generate_linear_factor s4 = (h, s5)" by (cases "generate_linear_factor s4")
  then have hz: "\<not> is_zero h" by (auto simp: generate_linear_factor_def split: prod.splits)
  show ?thesis
    using dn(2) hz
    by (simp add: generate_function_def config_lookup cfg_def[symmetric] n dn(1) r u h Let_def)
qed

text \<open>
  C7. For every difficulty (in range or not), every engine and every run of the random
  source, \<open>generate_function\<close> returns a dictionary whose denominator is not the zero
  polynomial, the hole factor included; and whatever the regeneration loop returns is
  nonzero.
\<close>

theorem denominator_never_zero:
  "(\<exists>fd s'. generate_function E d s = Some (Inr (fd, s'))
       \<and> \<not> is_zero (denominator fd) \<and> (\<exists>x. eval (denominator fd) x \<noteq> 0))
   \<and> (\<forall>den0 den s0 s1. regenerate_denominator max_deg max_fac den0 s0 = Some (Inr (den, s1))
         \<longrightarrow> \<not> is_zero den)"
proof -
  obtain fd s' where g: "generate_function E d s = Some (Inr (fd, s'))"
    "\<not> is_zero (denominator fd)"
    using generate_function_total by blast
  then have "\<exists>x. eval (denominator fd) x \<noteq> 0" by (simp add: is_zero_iff)
  with g show ?thesis by (blast dest: regenerate_denominator_result)
qed

theorem denominator_never_zero_witness:
  "(\<exists>fd s'. generate_function exact_engine 7 scenario_stream = Some (Inr (fd, s'))
       \<and> \<not> is_zero (denominator fd) \<and> (\<exists>x. eval (denominator fd) x \<noteq> 0))
   \<and> regenerate_denominator 2 2 (Monomial 0 1) zero_draw_stream
       = Some (Inr (Times (Times Const1 (Linear 2)) (Monomial 1 1), 8 ## sconst 0))
   \<and> \<not> is_zero (Times (Times Const1 (Linear 2)) (Monomial 1 1))"
proof -
  have "regenerate_denominator 2 2 (Monomial 0 1) zero_draw_stream
       = Some (Inr (Times (Times Const1 (Linear 2)) (Monomial 1 1), 8 ## sconst 0))"
    by (simp add: regenerate_denominator.simps generate_polynomial_def randint_def
        generate_linear_factor_def zero_draw_stream_def)
  with denominator_never_zero[of exact_engine 7 scenario_stream 2 2] show ?thesis by blast
qed

text \<open>
  C9, as the code has it. When the degree drawn exceeds the number of factors drawn,
  the product of the linear factors is multiplied by exactly one monomial
  \<open>c \<sqdot> x^(degree - factors)\<close>; \<open>c\<close> is a nonzero integer in \<open>[-5, 5]\<close>, namely the one
  draw made for it, or \<open>1\<close> when that draw is \<open>0\<close>: no second draw is made.
\<close>

theorem monomial_coefficient:
  assumes "1 \<le> max_deg" "1 \<le> max_fac"
    and "randint 1 max_deg s = (deg, s1)"
    and "randint 1 (min max_fac deg) s1 = (factors, s2)"
    and "multiply_factors (nat factors) Const1 s2 = (product, s3)"
    and "factors < deg"
  shows "\<exists>c. generate_polynomial max_deg max_fac s
               = Inr (Times product (Monomial c (nat (deg - factors))), stl s3)
           \<and> c \<noteq> 0 \<and> - 5 \<le> c \<and> c \<le> 5
           \<and> c = (if fst (randint (- 5) 5 s3) = 0 then 1 else fst (randint (- 5) 5 s3))"
proof -
  have d: "1 \<le> deg" using randint_range(1)[OF assms(1), of s] assms(3) by simp
  then have m: "\<not> min max_fac deg < 1" using assms(2) by simp
  obtain coeff s4 where c: "randint (- 5) 5 s3 = (coeff, s4)" by (cases "randint (- 5) 5 s3")
  have r: "- 5 \<le> coeff" "coeff \<le> 5" "s4 = stl s3"
    using randint_range[of "- 5" 5 s3] c by simp_all
  show ?thesis
    using assms(1,6) m r
    by (simp add: generate_polynomial_def assms(3,4,5) c Let_def)
qed

theorem monomial_coefficient_witness:
  "(1::int) \<le> 2 \<and> randint 1 2 zero_draw_stream = (2, 0 ## 7 ## 5 ## 8 ## sconst 0)
   \<and> randint 1 (min 2 2) (0 ## 7 ## 5 ## 8 ## sconst 0) = (1, 7 ## 5 ## 8 ## sconst 0)
   \<and> multiply_factors (nat 1) Const1 (7 ## 5 ## 8 ## sconst 0)
       = (Times Const1 (Linear 2), 5 ## 8 ## sconst 0)
   \<and> (1::int) < 2
   \<and> generate_polynomial 2 2 zero_draw_stream
       = Inr (Times (Times Const1 (Linear 2)) (Monomial 1 (nat (2 - 1))), 8 ## sconst 0)"
proof -
  have a: "randint 1 2 zero_draw_stream = (2, 0 ## 7 ## 5 ## 8 ## sconst 0)"
    by (simp add: randint_def zero_draw_stream_def)
  have b: "randint 1 (min 2 2) (0 ## 7 ## 5 ## 8 ## sconst 0) = (1, 7 ## 5 ## 8 ## sconst 0)"
    by (simp add: randint_def)
  have c: "multiply_factors (nat 1) Const1 (7 ## 5 ## 8 ## sconst 0)
       = (Times Const1 (Linear 2), 5 ## 8 ## sconst 0)"
    by (simp add: randint_def generate_linear_factor_def)
  have d: "(1::int) < 2" by simp
  from monomial_coefficient[OF _ _ a b c d] a b c show ?thesis
    by (simp add: randint_def)
qed

text \<open>
  C9 as stated fails: after the draw \<open>0\<close> the coefficient is \<open>1\<close> and the next draw is
  left in the source, where resampling would have consumed it and given \<open>3\<close>.
\<close>

theorem zero_draw_not_resampled:
  "generate_polynomial 2 2 zero_draw_stream
     = Inr (Times (Times Const1 (Linear 2)) (Monomial 1 1), 8 ## sconst 0)
   \<and> resample_nonzero (5 ## 8 ## sconst 0) = Some (3, sconst 0)"
  by (simp add: generate_polynomial_def randint_def generate_linear_factor_def
      zero_draw_stream_def resample_nonzero.simps)

text \<open>Without a remaining degree no monomial is multiplied in.\<close>

lemma generate_polynomial_no_monomial:
  assumes "1 \<le> max_deg" "1 \<le> max_fac"
    and "randint 1 max_deg s = (deg, s1)"
    and "randint 1 (min max_fac deg) s1 = (factors, s2)"
    and "multiply_factors (nat factors) Const1 s2 = (product, s3)"
    and "\<not> factors < deg"
  shows "generate_polynomial max_deg max_fac s = Inr (product, s3)"
proof -
  have d: "1 \<le> deg" using randint_range(1)[OF assms(1), of s] assms(3) by simp
  then have m: "\<not> min max_fac deg < 1" using assms(2) by simp
  show ?thesis
    using assms(1,6) m
    by (simp add: generate_polynomial_def assms(3,4,5) Let_def)
qed

subsection \<open>Generation followed by analysis\<close>

lemma solves_products_exact: "solves_products exact_engine"
  by (simp add: solves_products_def exact_engine_def exact_solve_def)

lemma solves_products_degraded: "solves_products degraded_engine"
  by (simp add: solves_products_def degraded_engine_def exact_engine_def exact_solve_def)

lemma generate_pole:
  "generate_function exact_engine 1 pole_stream = Some (Inr (pole_dict, sconst 0))"
  by (simp add: generate_function_def config_lookup generate_polynomial_def randint_def
      generate_linear_factor_def regenerate_denominator.simps random_unit_def
      exact_engine_def pole_stream_def pole_dict_def)

lemma generate_scenario_degraded:
  "generate_function degraded_engine 1 scenario_stream = Some (Inr (scenario_dict, sconst 0))"
  by (simp add: generate_function_def config_lookup generate_polynomial_def randint_def
      generate_linear_factor_def regenerate_denominator.simps random_unit_def
      degraded_engine_def exact_engine_def scenario_stream_def scenario_dict_def
      numeral_2_eq_2)

text \<open>
  C2. For every difficulty and every run of the random source, the dictionary that
  \<open>generate_function\<close> returns is analyzed without an exception: the two \<^verbatim>\<open>solve\<close>
  calls, which no \<^verbatim>\<open>try\<close> encloses, return on the products the generator builds;
  a failure of the limit gives the horizontal asymptote \<open>0\<close>, and a failure of the
  evaluation at \<open>0\<close> (a pole there) gives the none-marker for the y-intercept.
\<close>

theorem analyze_function_never_raises:
  assumes "solves_products E"
  shows "\<exists>fd s' a. generate_function E d s = Some (Inr (fd, s'))
     \<and> analyze_function E fd = Inr a
     \<and> ((\<exists>e. limit_oo E (numerator fd) (denominator fd) = Inl e)
            \<longrightarrow> horizontal_asymptote a = Some (IntNum 0))
     \<and> ((\<exists>e. subs0_float E (func fd) = Inl e) \<longrightarrow> y_intercept a = None)"
proof -
  obtain fd s' where g: "generate_function E d s = Some (Inr (fd, s'))"
    using generate_function_total[of E d s] by blast
  from assms obtain dr nr where
    "solve E (denominator fd) = Inr dr" "solve E (numerator fd) = Inr nr"
    unfolding solves_products_def by metis
  from analyze_function_returns[OF this] g show ?thesis by blast
qed

theorem analyze_function_never_raises_witness:
  "solves_products exact_engine
   \<and> generate_function exact_engine 1 pole_stream = Some (Inr (pole_dict, sconst 0))
   \<and> subs0_float exact_engine (func pole_dict) = Inl TypeError
   \<and> (\<exists>a. analyze_function exact_engine pole_dict = Inr a \<and> y_intercept a = None)
   \<and> solves_products degraded_engine
   \<and> generate_function degraded_engine 1 scenario_stream
       = Some (Inr (scenario_dict, sconst 0))
   \<and> limit_oo degraded_engine (numerator scenario_dict) (denominator scenario_dict)
       = Inl LimitError
   \<and> (\<exists>a. analyze_function degraded_engine scenario_dict = Inr a
         \<and> horizontal_asymptote a = Some (IntNum 0))"
proof -
  have y: "subs0_float exact_engine (func pole_dict) = Inl TypeError"
    by (simp add: exact_engine_def exact_subs0_def pole_dict_def)
  have l: "limit_oo degraded_engine (numerator scenario_dict) (denominator scenario_dict)
      = Inl LimitError"
    by (simp add: degraded_engine_def failing_limit_def)
  from analyze_function_never_raises[OF solves_products_exact, of 1 pole_stream] y
  have 1: "\<exists>a. analyze_function exact_engine pole_dict = Inr a \<and> y_intercept a = None"
    by (auto simp: generate_pole)
  from analyze_function_never_raises[OF solves_products_degraded, of 1 scenario_stream] l
  have 2: "\<exists>a. analyze_function degraded_engine scenario_dict = Inr a
         \<and> horizontal_asymptote a = Some (IntNum 0)"
    by (auto simp: generate_scenario_degraded)
  from 1 2 y l solves_products_exact solves_products_degraded generate_pole
    generate_scenario_degraded
  show ?thesis by simp
qed

subsection \<open>The random source and the resampling loops\<close>

lemma fair_sdrop: "fair k s \<Longrightarrow> fair k (sdrop n s)"
  unfolding fair_def
proof (intro allI impI)
  fix n0 v
  assume f: "\<forall>n v. v < k \<longrightarrow> (\<exists>m. n \<le> m \<and> nat (s !! m mod int k) = v)" and v: "v < k"
  then obtain m where m: "n0 + n \<le> m" "nat (s !! m mod int k) = v" by blast
  then have "n0 \<le> m - n \<and> nat (sdrop n s !! (m - n) mod int k) = v"
    by (simp add: sdrop_snth)
  then show "\<exists>m. n0 \<le> m \<and> nat (sdrop n s !! m mod int k) = v" by blast
qed

lemma fair_stl: "fair k s \<Longrightarrow> fair k (stl s)"
  using fair_sdrop[of k s 1] by simp

lemma fair_hits:
  assumes "fair (nat (hi - lo + 1)) s" "lo \<le> v" "v \<le> hi"
  shows "\<exists>m. lo + s !! m mod (hi - lo + 1) = v"
proof -
  have "nat (v - lo) < nat (hi - lo + 1)" using assms(2,3) by simp
  with assms(1) obtain m where "nat (s !! m mod int (nat (hi - lo + 1))) = nat (v - lo)"
    unfolding fair_def by blast
  moreover have "0 \<le> s !! m mod (hi - lo + 1)" using assms(2,3) by simp
  moreover have "0 \<le> v - lo" using assms(2) by simp
  ultimately have "s !! m mod (hi - lo + 1) = v - lo"
    using assms(2,3) by (simp add: eq_nat_nat_iff)
  then show ?thesis by (intro exI[of _ m]) simp
qed

lemma fair_counting: "0 < k \<Longrightarrow> fair k counting_stream"
  unfolding fair_def
proof (intro allI impI)
  fix n v assume k: "0 < k" and v: "v < k"
  have f: "((\<lambda>x::int. x + 1) ^^ m) 0 = int m" for m by (induction m) simp_all
  have "counting_stream !! (n * k + v) = int (n * k + v)"
    by (simp add: counting_stream_def f del: of_nat_add of_nat_mult)
  moreover have "int (n * k + v) mod int k = int v"
    using v by (metis mod_less mod_mult_self3 of_nat_mod)
  moreover have "n \<le> n * k + v"
    using k by (metis le_add1 mult.commute mult_le_mono1 One_nat_def Suc_leI mult_1 order_trans)
  ultimately show "\<exists>m\<ge>n. nat (counting_stream !! m mod int k) = v"
    by (intro exI[of _ "n * k + v"]) simp
qed

text \<open>The loop ends as soon as a later draw is acceptable, on an acceptable value.\<close>

lemma resample_terminates:
  assumes "\<not> bad (lo + s !! m mod (hi - lo + 1))"
  shows "\<exists>w' n. resample bad lo hi w s = Some (w', sdrop n s) \<and> \<not> bad w'"
  using assms
proof (induction m arbitrary: w s)
  case 0
  show ?case
  proof (cases "bad w")
    case False
    then have "resample bad lo hi w s = Some (w, sdrop 0 s)" by (simp add: resample.simps)
    with False show ?thesis by blast
  next
    case True
    from 0 have "resample bad lo hi (lo + shd s mod (hi - lo + 1)) (stl s)
        = Some (lo + shd s mod (hi - lo + 1), sdrop 1 s)"
      by (simp add: resample.simps)
    with True have "resample bad lo hi w s = Some (lo + shd s mod (hi - lo + 1), sdrop 1 s)"
      by (subst resample.simps) (simp add: randint_def)
    with 0 show ?thesis by (metis snth.simps(1))
  qed
next
  case (Suc m)
  show ?case
  proof (cases "bad w")
    case False
    then have "resample bad lo hi w s = Some (w, sdrop 0 s)" by (simp add: resample.simps)
    with False show ?thesis by blast
  next
    case True
    from Suc.prems have "\<not> bad (lo + stl s !! m mod (hi - lo + 1))" by simp
    from Suc.IH[OF this, of "lo + shd s mod (hi - lo + 1)"] obtain w' n where
      r: "resample bad lo hi (lo + shd s mod (hi - lo + 1)) (stl s) = Some (w', sdrop n (stl s))"
      and nb: "\<not> bad w'" by blast
    from True r have "resample bad lo hi w s = Some (w', sdrop (Suc n) s)"
      by (subst resample.simps) (simp add: randint_def)
    with nb show ?thesis by blast
  qed
qed

lemma wrong_answers_loop_total:
  assumes fresh: "\<And>was. length was < N \<Longrightarrow> \<exists>v. lo \<le> v \<and> v \<le> hi \<and> \<not> bad was v"
  shows "fair (nat (hi - lo + 1)) s \<Longrightarrow> length was0 + n \<le> N \<Longrightarrow>
     \<exists>was s'. wrong_answers_loop n bad mk lo hi was0 s = Some (was, s')
        \<and> fair (nat (hi - lo + 1)) s'"
proof (induction n arbitrary: was0 s)
  case 0
  then show ?case by simp
next
  case (Suc n)
  from Suc.prems(2) have "length was0 < N" by simp
  from fresh[OF this] obtain v where v: "lo \<le> v" "v \<le> hi" "\<not> bad was0 v" by blast
  have fs: "fair (nat (hi - lo + 1)) (stl s)" using Suc.prems(1) by (rule fair_stl)
  from fair_hits[OF fs v(1,2)] obtain m where "lo + stl s !! m mod (hi - lo + 1) = v" by blast
  with v(3) have "\<not> bad was0 (lo + stl s !! m mod (hi - lo + 1))" by simp
  from resample_terminates[where bad = "bad was0" and w = "fst (randint lo hi s)", OF this]
  obtain w' j where
    r: "resample (bad was0) lo hi (fst (randint lo hi s)) (stl s) = Some (w', sdrop j (stl s))"
    by blast
  have f2: "fair (nat (hi - lo + 1)) (sdrop j (stl s))" using fs by (rule fair_sdrop)
  have "length (was0 @ [mk w']) + n \<le> N" using Suc.prems(2) by simp
  from Suc.IH[OF f2 this] obtain was s' where
    "wrong_answers_loop n bad mk lo hi (was0 @ [mk w']) (sdrop j (stl s)) = Some (was, s')"
    "fair (nat (hi - lo + 1)) s'" by blast
  with r show ?case by (simp add: randint_def)
qed

text \<open>What the loops return was accepted: no candidate that is kept was \<open>bad\<close>
  for the answers stored before it.\<close>

lemma resample_post_aux:
  "resample bad lo hi w s = Some y \<Longrightarrow> \<not> bad (fst y)"
proof (induction rule: resample.raw_induct[rotated 1, consumes 1])
  case (1 f bad lo hi w s y)
  then show ?case by (cases y) (fastforce split: if_splits prod.splits)
qed

lemma resample_post: "resample bad lo hi w s = Some (w', s') \<Longrightarrow> \<not> bad w'"
  by (drule resample_post_aux) simp

lemma wrong_answers_loop_post:
  "wrong_answers_loop n bad mk lo hi was0 s = Some (was, s') \<Longrightarrow>
     \<exists>new. was = was0 @ map mk new \<and> length new = n
       \<and> (\<forall>i<n. \<not> bad (was0 @ map mk (take i new)) (new ! i))"
proof (induction n arbitrary: was0 s)
  case 0
  then show ?case by simp
next
  case (Suc n)
  obtain w s1 where d: "randint lo hi s = (w, s1)" by (cases "randint lo hi s")
  from Suc.prems d obtain w' s2 where
    r: "resample (bad was0) lo hi w s1 = Some (w', s2)"
    and l: "wrong_answers_loop n bad mk lo hi (was0 @ [mk w']) s2 = Some (was, s')"
    by (auto split: option.splits)
  from Suc.IH[OF l] obtain new where
    n: "was = (was0 @ [mk w']) @ map mk new" "length new = n"
    "\<forall>i<n. \<not> bad ((was0 @ [mk w']) @ map mk (take i new)) (new ! i)" by blast
  have "\<forall>i<Suc n. \<not> bad (was0 @ map mk (take i (w' # new))) ((w' # new) ! i)"
  proof (intro allI impI)
    fix i assume i: "i < Suc n"
    show "\<not> bad (was0 @ map mk (take i (w' # new))) ((w' # new) ! i)"
    proof (cases i)
      case 0
      then show ?thesis using resample_post[OF r] by simp
    next
      case (Suc j)
      then show ?thesis using n(3) i by simp
    qed
  qed
  with n(1,2) show ?case by (intro exI[of _ "w' # new"]) simp
qed

text \<open>On a source that repeats one draw, a loop entered with a rejected candidate
  whose redraw is rejected too never ends.\<close>

lemma resample_stuck:
  assumes "resample bad lo hi w s = Some y"
  shows "\<not> (stl s = s \<and> bad w \<and> bad (lo + shd s mod (hi - lo + 1)))"
  using assms
proof (induction rule: resample.raw_induct[rotated 1, consumes 1])
  case (1 f bad lo hi w s y)
  show ?case
  proof
    assume a: "stl s = s \<and> bad w \<and> bad (lo + shd s mod (hi - lo + 1))"
    with 1(2) have "f bad lo hi (lo + shd s mod (hi - lo + 1)) s = Some y"
      by (simp add: randint_def)
    from 1(1)[OF this] a show False by simp
  qed
qed

lemma resample_diverges:
  assumes "stl s = s" "bad w" "bad (lo + shd s mod (hi - lo + 1))"
  shows "resample bad lo hi w s = None"
proof (cases "resample bad lo hi w s")
  case None
  then show ?thesis .
next
  case (Some y)
  from resample_stuck[OF this] assms show ?thesis by simp
qed

lemma wrong_answers_loop_diverges:
  assumes c: "stl s = s"
    and first: "\<not> bad [] (lo + shd s mod (hi - lo + 1))"
    and again: "bad [mk (lo + shd s mod (hi - lo + 1))] (lo + shd s mod (hi - lo + 1))"
  shows "wrong_answers_loop (Suc (Suc n)) bad mk lo hi [] s = None"
proof -
  let ?w = "lo + shd s mod (hi - lo + 1)"
  have d: "randint lo hi s = (?w, s)" by (simp add: randint_def c)
  have 1: "resample (bad []) lo hi ?w s = Some (?w, s)"
    using first by (subst resample.simps) simp
  have 2: "resample (bad [mk ?w]) lo hi ?w s = None"
    using c again again by (rule resample_diverges)
  show ?thesis by (simp add: d 1 2)
qed

text \<open>Each stored answer rules out at most one of the eleven candidates.\<close>

lemma py_eq_list_key: "py_eq (PyList [int_val v]) x \<Longrightarrow> answer_key x = of_int v"
proof (cases x)
  case (PyList ys)
  assume a: "py_eq (PyList [int_val v]) x"
  with PyList obtain y where ys: "ys = [y]"
    by (cases ys; cases "tl ys") (auto simp: int_val_def)
  with a PyList show ?thesis by (cases y) (auto simp: int_val_def)
qed (auto simp: int_val_def)

lemma py_eq_int_key: "py_eq (int_val v) x \<Longrightarrow> answer_key x = of_int v"
  by (cases x) (auto simp: int_val_def)

lemma fresh_candidate:
  assumes "length was < 11"
    and key: "\<And>v x. bad v x \<Longrightarrow> answer_key x = of_int v"
  shows "\<exists>v::int. - 5 \<le> v \<and> v \<le> 5 \<and> \<not> (\<exists>x \<in> set was. bad v x)"
proof (rule ccontr)
  assume "\<not> ?thesis"
  then have all: "\<And>v. - 5 \<le> v \<Longrightarrow> v \<le> 5 \<Longrightarrow> \<exists>x \<in> set was. bad v x" by blast
  have "(of_int ` {- 5..5::int} :: rat set) \<subseteq> answer_key ` set was"
  proof
    fix q :: rat assume "q \<in> of_int ` {- 5..5::int}"
    then obtain v :: int where v: "q = of_int v" "- 5 \<le> v" "v \<le> 5" by auto
    from all[OF v(2,3)] obtain x where "x \<in> set was" "bad v x" by blast
    then show "q \<in> answer_key ` set was" using v(1) key by force
  qed
  then have "card (of_int ` {- 5..5::int} :: rat set) \<le> card (answer_key ` set was)"
    by (intro card_mono) simp_all
  also have "\<dots> \<le> card (set was)" by (rule card_image_le) simp
  also have "\<dots> \<le> length was" by (rule card_length)
  finally have "card (of_int ` {- 5..5::int} :: rat set) < 11" using assms(1) by simp
  moreover have "card (of_int ` {- 5..5::int} :: rat set) = card {- 5..5::int}"
    by (intro card_image) (simp add: inj_on_def)
  ultimately show False by simp
qed

lemma fresh_list_candidate:
  "length was < 11 \<Longrightarrow> \<exists>v. - 5 \<le> v \<and> v \<le> 5 \<and> \<not> py_in (PyList [int_val v]) was"
  using fresh_candidate[of was "\<lambda>v x. py_eq (PyList [int_val v]) x"] py_eq_list_key
  by (simp add: py_in_def list_ex_iff)

lemma fresh_int_candidate:
  "length was < 11 \<Longrightarrow> \<exists>v. - 5 \<le> v \<and> v \<le> 5 \<and> \<not> py_in (int_val v) was"
  using fresh_candidate[of was "\<lambda>v x. py_eq (int_val v) x"] py_eq_int_key
  by (simp add: py_in_def list_ex_iff)

text \<open>\<^verbatim>\<open>random.shuffle\<close> permutes.\<close>

lemma shuffle_from_mset:
  "i < length xs \<Longrightarrow> mset (fst (shuffle_from i xs s)) = mset xs"
proof (induction i arbitrary: xs s)
  case 0
  then show ?case by simp
next
  case (Suc i)
  have j: "nat (shd s mod int (Suc (Suc i))) < Suc (Suc i)"
    by (metis nat_less_iff of_nat_0_less_iff pos_mod_bound pos_mod_sign zero_less_Suc)
  define j where "j = nat (shd s mod int (Suc (Suc i)))"
  have jl: "j < length xs" using j Suc.prems by (simp add: j_def)
  have "mset (xs[Suc i := xs ! j, j := xs ! Suc i]) = mset xs"
    using mset_swap[OF jl Suc.prems] by simp
  moreover have "i < length (xs[Suc i := xs ! j, j := xs ! Suc i])" using Suc.prems by simp
  ultimately show ?case using Suc.IH[of "xs[Suc i := xs ! j, j := xs ! Suc i]" "stl s"]
    by (simp add: randbelow_def j_def)
qed

lemma shuffle_mset: "mset (fst (shuffle xs s)) = mset xs"
proof (cases xs)
  case Nil
  then show ?thesis by (simp add: shuffle_def)
next
  case (Cons x ys)
  then show ?thesis using shuffle_from_mset[of "length xs - 1" xs s] by (simp add: shuffle_def)
qed

lemma shuffle_rendered:
  "shuffle xs s = (cs, s') \<Longrightarrow> mset (map f cs) = image_mset f (mset xs)"
  using shuffle_mset[of xs s] by (metis fst_conv mset_map)

subsection \<open>The question builders\<close>

lemma render_fixed:
  "render fs (PyStr ''None'') = ''None''"
  "render fs (PyList [int_val (- 1)]) = ''[-1]''"
  "render fs (PyList [int_val 0]) = ''[0]''"
  "render fs (PyList [int_val 1]) = ''[1]''"
  "render fs (int_val (- 1)) = ''-1''"
  "render fs (int_val 0) = ''0''"
  "render fs (int_val 1) = ''1''"
  by (simp_all add: render_def int_val_def int_str_def nat_str.simps)

lemma questions_lookup:
  "questions ''vertical_asymptotes'' = Some generate_va_question"
  "questions ''horizontal_asymptote'' = Some generate_ha_question"
  "questions ''x_intercepts'' = Some generate_x_intercept_question"
  "questions ''holes'' = Some generate_holes_question"
  by (simp_all add: questions_def)

lemma questions_dom: "questions qt = None \<longleftrightarrow> qt \<notin> set question_types"
  by (simp add: questions_def question_types_def)

lemma dispatch_known:
  "questions qt = Some builder \<Longrightarrow>
     generate_multiple_choice_question fs fd a (Some qt) s = builder fs fd a s"
  by (simp add: generate_multiple_choice_question.simps)

lemma bind_questions_None:
  assumes "question_type \<notin> Some ` set question_types"
  shows "Option.bind question_type questions = None"
proof (cases question_type)
  case None
  then show ?thesis by simp
next
  case (Some qt)
  with assms have "qt \<notin> set question_types" by auto
  with Some show ?thesis by (simp add: questions_dom)
qed

lemma dispatch_unknown:
  assumes "question_type \<notin> Some ` set question_types"
  shows "generate_multiple_choice_question fs fd a question_type s
     = generate_random_question fs fd a s"
  by (subst generate_multiple_choice_question.simps)
     (simp add: bind_questions_None[OF assms] generate_random_question_def)

lemma choice_question_types:
  "choice question_types s = (question_types ! nat (shd s mod 4), stl s)"
  "question_types ! nat (shd s mod 4) \<in> set question_types"
proof -
  show "choice question_types s = (question_types ! nat (shd s mod 4), stl s)"
    by (simp add: choice_def randbelow_def question_types_def)
  have "nat (shd s mod 4) < length question_types" by (simp add: question_types_def)
  then show "question_types ! nat (shd s mod 4) \<in> set question_types" by (rule nth_mem)
qed

text \<open>With no vertical asymptote the first builder never resamples: an int is
  never found among the stored lists.\<close>

lemma int_not_in_lists:
  "\<forall>x \<in> set was. \<exists>ys. x = PyList ys \<Longrightarrow> \<not> py_in (int_val w) was"
  by (auto simp: py_in_def list_ex_iff int_val_def)

lemma va_loop_no_resample:
  assumes "\<forall>x \<in> set was0. \<exists>ys. x = PyList ys"
  shows "\<exists>was s'. wrong_answers_loop n
           (\<lambda>wrong_answers wrong.
              py_in (int_val wrong) (float_list []) \<or> py_in (int_val wrong) wrong_answers)
           (\<lambda>wrong. PyList [int_val wrong]) (- 5) 5 was0 s = Some (was, s')"
  using assms
proof (induction n arbitrary: was0 s)
  case 0
  then show ?case by simp
next
  case (Suc n)
  obtain w s1 where d: "randint (- 5) 5 s = (w, s1)" by (cases "randint (- 5) 5 s")
  have nb: "\<not> (py_in (int_val w) (float_list []) \<or> py_in (int_val w) was0)"
    using int_not_in_lists[OF Suc.prems] by (simp add: py_in_def float_list_def)
  have r: "resample (\<lambda>wrong. py_in (int_val wrong) (float_list []) \<or> py_in (int_val wrong) was0)
      (- 5) 5 w s1 = Some (w, s1)"
    using nb by (subst resample.simps) simp
  have "\<forall>x \<in> set (was0 @ [PyList [int_val w]]). \<exists>ys. x = PyList ys" using Suc.prems by auto
  from Suc.IH[OF this, of s1] show ?case by (simp add: d r)
qed

lemma va_question_none:
  assumes "vertical_asymptotes a = []"
  shows "\<exists>q s'. generate_va_question fs fd a s = Some (q, s') \<and> correct_answer q = ''None''
     \<and> mset (choices q) = {#''None'', ''[-1]'', ''[0]'', ''[1]''#}"
proof -
  have "\<forall>x \<in> set ([] :: pyval list). \<exists>ys. x = PyList ys" by simp
  from va_loop_no_resample[OF this, of 3 s]
  obtain was s1 where l: "wrong_answers_loop 3
      (\<lambda>wrong_answers wrong.
         py_in (int_val wrong) (float_list []) \<or> py_in (int_val wrong) wrong_answers)
      (\<lambda>wrong. PyList [int_val wrong]) (- 5) 5 [] s = Some (was, s1)" by blast
  obtain cs s2 where sh: "shuffle [PyStr ''None'', PyList [int_val (- 1)], PyList [int_val 0],
      PyList [int_val 1]] s1 = (cs, s2)" by (metis surj_pair)
  from shuffle_rendered[OF sh, of "render fs"]
  have "mset (map (render fs) cs) = {#''None'', ''[-1]'', ''[0]'', ''[1]''#}"
    by (simp add: render_fixed)
  then show ?thesis
    unfolding generate_va_question_def Let_def assms l
    by (simp add: sh render_fixed)
qed

lemma list_question_loop:
  assumes "fair 11 s"
  shows "\<exists>was s1. wrong_answers_loop 3
              (\<lambda>wrong_answers w.
                 py_eq (PyList [int_val w]) (PyList (float_list []))
                 \<or> py_in (PyList [int_val w]) wrong_answers)
              (\<lambda>w. PyList [int_val w]) (- 5) 5 [] s = Some (was, s1)"
proof -
  let ?bad = "\<lambda>wrong_answers w.
                 py_eq (PyList [int_val w]) (PyList (float_list []))
                 \<or> py_in (PyList [int_val w]) wrong_answers"
  have fresh: "\<exists>v. - 5 \<le> v \<and> v \<le> 5 \<and> \<not> ?bad was v" if "length was < 11" for was
    using fresh_list_candidate[OF that] by (simp add: float_list_def)
  have f: "fair (nat (5 - (- 5) + 1)) s" using assms(1) by simp
  from wrong_answers_loop_total[of 11 "- 5" 5 ?bad s "[]" 3 "\<lambda>w. PyList [int_val w]",
      OF fresh f]
  show ?thesis by auto
qed

lemma x_intercept_question_none:
  assumes "fair 11 s" "x_intercepts a = []"
  shows "\<exists>q s'. generate_x_intercept_question fs fd a s = Some (q, s')
     \<and> correct_answer q = ''None''
     \<and> mset (choices q) = {#''None'', ''[-1]'', ''[0]'', ''[1]''#}"
proof -
  from list_question_loop[OF assms(1)] obtain was s1 where l: "wrong_answers_loop 3
              (\<lambda>wrong_answers w.
                 py_eq (PyList [int_val w]) (PyList (float_list []))
                 \<or> py_in (PyList [int_val w]) wrong_answers)
              (\<lambda>w. PyList [int_val w]) (- 5) 5 [] s = Some (was, s1)" by blast
  obtain cs s2 where sh: "shuffle [PyStr ''None'', PyList [int_val (- 1)], PyList [int_val 0],
      PyList [int_val 1]] s1 = (cs, s2)" by (metis surj_pair)
  from shuffle_rendered[OF sh, of "render fs"]
  have "mset (map (render fs) cs) = {#''None'', ''[-1]'', ''[0]'', ''[1]''#}"
    by (simp add: render_fixed)
  then show ?thesis
    unfolding generate_x_intercept_question_def Let_def assms(2) l
    by (simp add: sh render_fixed)
qed

lemma holes_question_none:
  assumes "fair 11 s" "holes a = []"
  shows "\<exists>q s'. generate_holes_question fs fd a s = Some (q, s') \<and> correct_answer q = ''None''
     \<and> mset (choices q) = {#''None'', ''[-1]'', ''[0]'', ''[1]''#}"
proof -
  from list_question_loop[OF assms(1)] obtain was s1 where l: "wrong_answers_loop 3
              (\<lambda>wrong_answers w.
                 py_eq (PyList [int_val w]) (PyList (float_list []))
                 \<or> py_in (PyList [int_val w]) wrong_answers)
              (\<lambda>w. PyList [int_val w]) (- 5) 5 [] s = Some (was, s1)" by blast
  obtain cs s2 where sh: "shuffle [PyStr ''None'', PyList [int_val (- 1)], PyList [int_val 0],
      PyList [int_val 1]] s1 = (cs, s2)" by (metis surj_pair)
  from shuffle_rendered[OF sh, of "render fs"]
  have "mset (map (render fs) cs) = {#''None'', ''[-1]'', ''[0]'', ''[1]''#}"
    by (simp add: render_fixed)
  then show ?thesis
    unfolding generate_holes_question_def Let_def assms(2) l
    by (simp add: sh render_fixed)
qed

lemma ha_question_none:
  assumes "horizontal_asymptote a = None"
  shows "\<exists>q s'. generate_ha_question fs fd a s = Some (q, s') \<and> correct_answer q = ''None''
     \<and> mset (choices q) = {#''None'', ''0'', ''1'', ''-1''#}"
proof -
  obtain cs s2 where sh: "shuffle [PyStr ''None'', int_val 0, int_val 1, int_val (- 1)] s
      = (cs, s2)" by (metis surj_pair)
  from shuffle_rendered[OF sh, of "render fs"]
  have "mset (map (render fs) cs) = {#''None'', ''0'', ''1'', ''-1''#}"
    by (simp add: render_fixed)
  then show ?thesis
    by (simp add: generate_ha_question_def assms sh render_fixed)
qed

text \<open>The two builders that compare lists do depend on the source: on one that
  always yields \<open>1\<close> the second candidate is rejected for ever.\<close>

lemma x_intercept_question_diverges:
  "generate_x_intercept_question fs fd featureless_analysis (sconst 6) = None"
proof -
  let ?bad = "\<lambda>wrong_answers w.
                 py_eq (PyList [int_val w]) (PyList (float_list []))
                 \<or> py_in (PyList [int_val w]) wrong_answers"
  have e: "x_intercepts featureless_analysis = []" by (simp add: featureless_analysis_def)
  have "wrong_answers_loop (Suc (Suc 1)) ?bad (\<lambda>w. PyList [int_val w]) (- 5) 5 [] (sconst 6) = None"
    by (rule wrong_answers_loop_diverges) (simp_all add: py_in_def int_val_def float_list_def)
  then have l: "wrong_answers_loop 3 ?bad (\<lambda>w. PyList [int_val w]) (- 5) 5 [] (sconst 6) = None"
    by (simp only: numeral_3_eq_3 One_nat_def)
  show ?thesis
    unfolding generate_x_intercept_question_def Let_def e l by simp
qed

text \<open>What the sampling guarantees, builder by builder.\<close>

lemma py_eq_singletons:
  "py_eq (PyList [int_val v]) (PyList [int_val w]) \<longleftrightarrow> v = w"
  by (simp add: int_val_def)

text \<open>x-intercepts and holes: the sampled answers are three different one-element
  lists, none equal to the correct answer.\<close>

lemma list_question_samples_distinct:
  assumes "wrong_answers_loop 3
              (\<lambda>wrong_answers w.
                 py_eq (PyList [int_val w]) (PyList (float_list correct))
                 \<or> py_in (PyList [int_val w]) wrong_answers)
              (\<lambda>w. PyList [int_val w]) (- 5) 5 [] s = Some (sampled, s')"
  shows "\<exists>ws. sampled = map (\<lambda>w. PyList [int_val w]) ws \<and> length ws = 3 \<and> distinct ws
     \<and> (\<forall>w \<in> set ws. \<not> py_eq (PyList [int_val w]) (PyList (float_list correct)))"
proof -
  from wrong_answers_loop_post[OF assms] obtain ws where
    s: "sampled = map (\<lambda>w. PyList [int_val w]) ws" "length ws = 3"
    and nb: "\<forall>i<3. \<not> (py_eq (PyList [int_val (ws ! i)]) (PyList (float_list correct))
         \<or> py_in (PyList [int_val (ws ! i)]) (map (\<lambda>w. PyList [int_val w]) (take i ws)))"
    by auto
  have "ws ! i \<noteq> ws ! j" if "j < i" "i < 3" for i j
  proof
    assume e: "ws ! i = ws ! j"
    have "ws ! j \<in> set (take i ws)" using that s(2) by (metis in_set_conv_nth length_take min.absorb2 nat_less_le nth_take order.strict_trans)
    then have "py_in (PyList [int_val (ws ! i)]) (map (\<lambda>w. PyList [int_val w]) (take i ws))"
      using e by (auto simp: py_in_def list_ex_iff py_eq_singletons simp del: py_eq.simps)
    with nb that(2) show False by blast
  qed
  then have "distinct ws" using s(2)
    by (metis distinct_conv_nth nat_neq_iff)
  moreover have "\<forall>w \<in> set ws. \<not> py_eq (PyList [int_val w]) (PyList (float_list correct))"
    using nb s(2) by (metis in_set_conv_nth)
  ultimately show ?thesis using s by blast
qed

text \<open>vertical asymptotes: each sampled answer differs from every asymptote, and
  nothing more.\<close>

lemma va_question_samples:
  assumes "wrong_answers_loop 3
              (\<lambda>wrong_answers wrong.
                 py_in (int_val wrong) (float_list correct) \<or> py_in (int_val wrong) wrong_answers)
              (\<lambda>wrong. PyList [int_val wrong]) (- 5) 5 [] s = Some (sampled, s')"
  shows "\<exists>ws. sampled = map (\<lambda>w. PyList [int_val w]) ws \<and> length ws = 3
     \<and> (\<forall>w \<in> set ws. of_int w \<notin> set correct)"
proof -
  from wrong_answers_loop_post[OF assms] obtain ws where
    s: "sampled = map (\<lambda>w. PyList [int_val w]) ws" "length ws = 3"
    and nb: "\<forall>i<3. \<not> (py_in (int_val (ws ! i)) (float_list correct)
         \<or> py_in (int_val (ws ! i)) (map (\<lambda>w. PyList [int_val w]) (take i ws)))"
    by auto
  have "of_int w \<notin> set correct" if "w \<in> set ws" for w
  proof -
    from that obtain i where i: "i < 3" "ws ! i = w" using s(2) by (metis in_set_conv_nth)
    with nb have "\<not> py_in (int_val w) (float_list correct)" by blast
    then show ?thesis by (auto simp: py_in_def list_ex_iff float_list_def int_val_def)
  qed
  with s show ?thesis by blast
qed

text \<open>
  C1 fails in \<^verbatim>\<open>_generate_va_question\<close>. With the vertical asymptote \<open>3\<close> and a
  random source that yields \<open>1\<close> three times, the question has the choice \<open>[1]\<close>
  three times: the candidate is an int, the stored wrong answers are one-element
  lists, so the test \<^verbatim>\<open>wrong in wrong_answers\<close> never holds.
\<close>

theorem va_question_repeats_choice:
  "generate_multiple_choice_question fs scenario_dict scenario_analysis
      (Some ''vertical_asymptotes'') (sconst 6)
   = Some (\<lparr>question = ''What are the vertical asymptotes of f(x) = f?'',
            choices = [''[1]'', ''[1]'', ''['' @ fs 3 @ '']'', ''[1]''],
            correct_answer = ''['' @ fs 3 @ '']'',
            explanation = ''Vertical asymptotes occur where the denominator equals zero but the numerator doesn't.''\<rparr>,
           sconst 6)"
  by (simp add: dispatch_known[OF questions_lookup(1)] generate_va_question_def
      scenario_analysis_def scenario_dict_def numeral_3_eq_3 resample.simps randint_def
      py_in_def int_val_def float_list_def shuffle_def randbelow_def render_def
      int_str_def nat_str.simps)

text \<open>
  C6. For each of the four kinds, when the correct answer is the empty list (the
  none-marker, for the horizontal asymptote), the builder returns a question whose
  correct answer is the literal \<open>None\<close> and whose choices are that marker and the fixed
  distractors \<open>[-1]\<close>, \<open>[0]\<close>, \<open>[1]\<close> (\<open>-1\<close>, \<open>0\<close>, \<open>1\<close> for the horizontal
  asymptote), in some order, whatever was sampled before. The builders for x-intercepts
  and holes sample three candidates first, by loops that end on every fair run of the
  random source.
\<close>

theorem none_answer_fixed_distractors:
  "(vertical_asymptotes a = [] \<longrightarrow>
      (\<exists>q s'. generate_multiple_choice_question fs fd a (Some ''vertical_asymptotes'') s
                 = Some (q, s')
         \<and> correct_answer q = ''None''
         \<and> mset (choices q) = {#''None'', ''[-1]'', ''[0]'', ''[1]''#}))
   \<and> (horizontal_asymptote a = None \<longrightarrow>
      (\<exists>q s'. generate_multiple_choice_question fs fd a (Some ''horizontal_asymptote'') s
                 = Some (q, s')
         \<and> correct_answer q = ''None''
         \<and> mset (choices q) = {#''None'', ''-1'', ''0'', ''1''#}))
   \<and> (fair 11 s \<and> x_intercepts a = [] \<longrightarrow>
      (\<exists>q s'. generate_multiple_choice_question fs fd a (Some ''x_intercepts'') s
                 = Some (q, s')
         \<and> correct_answer q = ''None''
         \<and> mset (choices q) = {#''None'', ''[-1]'', ''[0]'', ''[1]''#}))
   \<and> (fair 11 s \<and> holes a = [] \<longrightarrow>
      (\<exists>q s'. generate_multiple_choice_question fs fd a (Some ''holes'') s
                 = Some (q, s')
         \<and> correct_answer q = ''None''
         \<and> mset (choices q) = {#''None'', ''[-1]'', ''[0]'', ''[1]''#}))"
proof (intro conjI impI)
  assume "vertical_asymptotes a = []"
  from va_question_none[OF this, of fs fd s]
  show "\<exists>q s'. generate_multiple_choice_question fs fd a (Some ''vertical_asymptotes'') s
                  = Some (q, s')
               \<and> correct_answer q = ''None''
               \<and> mset (choices q) = {#''None'', ''[-1]'', ''[0]'', ''[1]''#}"
    by (simp add: dispatch_known[OF questions_lookup(1)])
next
  assume "horizontal_asymptote a = None"
  from ha_question_none[OF this, of fs fd s]
  show "\<exists>q s'. generate_multiple_choice_question fs fd a (Some ''horizontal_asymptote'') s
                  = Some (q, s')
               \<and> correct_answer q = ''None''
               \<and> mset (choices q) = {#''None'', ''-1'', ''0'', ''1''#}"
    by (simp add: dispatch_known[OF questions_lookup(2)] add_mset_commute)
next
  assume "fair 11 s \<and> x_intercepts a = []"
  then have f: "fair 11 s" and e: "x_intercepts a = []" by simp_all
  from x_intercept_question_none[OF f e]
  show "\<exists>q s'. generate_multiple_choice_question fs fd a (Some ''x_intercepts'') s
                  = Some (q, s')
               \<and> correct_answer q = ''None''
               \<and> mset (choices q) = {#''None'', ''[-1]'', ''[0]'', ''[1]''#}"
    by (simp add: dispatch_known[OF questions_lookup(3)])
next
  assume "fair 11 s \<and> holes a = []"
  then have f: "fair 11 s" and e: "holes a = []" by simp_all
  from holes_question_none[OF f e]
  show "\<exists>q s'. generate_multiple_choice_question fs fd a (Some ''holes'') s = Some (q, s')
               \<and> correct_answer q = ''None''
               \<and> mset (choices q) = {#''None'', ''[-1]'', ''[0]'', ''[1]''#}"
    by (simp add: dispatch_known[OF questions_lookup(4)])
qed

theorem none_answer_fixed_distractors_witness:
  "fair 11 counting_stream
   \<and> vertical_asymptotes featureless_analysis = []
   \<and> horizontal_asymptote featureless_analysis = None
   \<and> x_intercepts featureless_analysis = []
   \<and> holes featureless_analysis = []
   \<and> (\<exists>q s'. generate_multiple_choice_question float_str scenario_dict featureless_analysis
                 (Some ''vertical_asymptotes'') counting_stream = Some (q, s')
          \<and> correct_answer q = ''None''
          \<and> mset (choices q) = {#''None'', ''[-1]'', ''[0]'', ''[1]''#})
   \<and> (\<exists>q s'. generate_multiple_choice_question float_str scenario_dict featureless_analysis
                 (Some ''horizontal_asymptote'') counting_stream = Some (q, s')
          \<and> correct_answer q = ''None''
          \<and> mset (choices q) = {#''None'', ''-1'', ''0'', ''1''#})
   \<and> (\<exists>q s'. generate_multiple_choice_question float_str scenario_dict featureless_analysis
                 (Some ''x_intercepts'') counting_stream = Some (q, s')
          \<and> correct_answer q = ''None''
          \<and> mset (choices q) = {#''None'', ''[-1]'', ''[0]'', ''[1]''#})
   \<and> (\<exists>q s'. generate_multiple_choice_question float_str scenario_dict featureless_analysis
                 (Some ''holes'') counting_stream = Some (q, s')
          \<and> correct_answer q = ''None''
          \<and> mset (choices q) = {#''None'', ''[-1]'', ''[0]'', ''[1]''#})"
proof -
  have f: "fair 11 counting_stream" by (rule fair_counting) simp
  have e: "vertical_asymptotes featureless_analysis = []"
    "horizontal_asymptote featureless_analysis = None"
    "x_intercepts featureless_analysis = []"
    "holes featureless_analysis = []"
    by (simp_all add: featureless_analysis_def)
  from none_answer_fixed_distractors[of featureless_analysis float_str scenario_dict
      counting_stream] f e
  show ?thesis by simp
qed

text \<open>Every builder returns on a fair source. For the first one this needs an
  integer of \<open>[-5, 5]\<close> that is not a vertical asymptote, or no candidate is ever
  accepted; the denominators that are generated have at most 8 roots.\<close>

lemma fresh_in_range:
  assumes "int (length was) < hi - lo + 1"
    and key: "\<And>v x. bad v x \<Longrightarrow> g x = (of_int v :: rat)"
  shows "\<exists>v::int. lo \<le> v \<and> v \<le> hi \<and> \<not> (\<exists>x \<in> set was. bad v x)"
proof (rule ccontr)
  assume "\<not> ?thesis"
  then have all: "\<And>v. lo \<le> v \<Longrightarrow> v \<le> hi \<Longrightarrow> \<exists>x \<in> set was. bad v x" by blast
  have "(of_int ` {lo..hi} :: rat set) \<subseteq> g ` set was"
  proof
    fix q :: rat assume "q \<in> of_int ` {lo..hi}"
    then obtain v :: int where v: "q = of_int v" "lo \<le> v" "v \<le> hi" by auto
    from all[OF v(2,3)] obtain x where "x \<in> set was" "bad v x" by blast
    then show "q \<in> g ` set was" using v(1) key by force
  qed
  then have "card (of_int ` {lo..hi} :: rat set) \<le> card (g ` set was)"
    by (intro card_mono) simp_all
  also have "\<dots> \<le> card (set was)" by (rule card_image_le) simp
  also have "\<dots> \<le> length was" by (rule card_length)
  finally have "int (card (of_int ` {lo..hi} :: rat set)) < hi - lo + 1" using assms(1) by simp
  moreover have "card (of_int ` {lo..hi} :: rat set) = card {lo..hi}"
    by (intro card_image) (simp add: inj_on_def)
  moreover have "0 < hi - lo + 1" using assms(1) by linarith
  ultimately show False by simp
qed

lemma list_loop_total:
  assumes "fair 11 s"
  shows "\<exists>was s1. wrong_answers_loop 3
              (\<lambda>wrong_answers w.
                 py_eq (PyList [int_val w]) (PyList (float_list correct))
                 \<or> py_in (PyList [int_val w]) wrong_answers)
              (\<lambda>w. PyList [int_val w]) (- 5) 5 [] s = Some (was, s1)"
proof -
  let ?bad = "\<lambda>wrong_answers w.
                 py_eq (PyList [int_val w]) (PyList (float_list correct))
                 \<or> py_in (PyList [int_val w]) wrong_answers"
  have fresh: "\<exists>v. - 5 \<le> v \<and> v \<le> 5 \<and> \<not> ?bad was v" if "length was < 10" for was
  proof -
    from that have "length (PyList (float_list correct) # was) < 11" by simp
    from fresh_list_candidate[OF this] show ?thesis
      by (simp add: py_in_def del: py_eq.simps)
  qed
  have f: "fair (nat (5 - (- 5) + 1)) s" using assms(1) by simp
  from wrong_answers_loop_total[of 10 "- 5" 5 ?bad s "[]" 3 "\<lambda>w. PyList [int_val w]",
      OF fresh f]
  show ?thesis by auto
qed

lemma x_intercept_question_returns:
  assumes "fair 11 s"
  shows "\<exists>q s'. generate_x_intercept_question fs fd a s = Some (q, s')"
proof -
  from list_loop_total[OF assms, of "x_intercepts a"] obtain was s1 where l: "wrong_answers_loop 3
              (\<lambda>wrong_answers w.
                 py_eq (PyList [int_val w]) (PyList (float_list (x_intercepts a)))
                 \<or> py_in (PyList [int_val w]) wrong_answers)
              (\<lambda>w. PyList [int_val w]) (- 5) 5 [] s = Some (was, s1)" by blast
  show ?thesis
    unfolding generate_x_intercept_question_def Let_def l
    by (simp split: prod.splits)
qed

lemma holes_question_returns:
  assumes "fair 11 s"
  shows "\<exists>q s'. generate_holes_question fs fd a s = Some (q, s')"
proof -
  from list_loop_total[OF assms, of "holes a"] obtain was s1 where l: "wrong_answers_loop 3
              (\<lambda>wrong_answers w.
                 py_eq (PyList [int_val w]) (PyList (float_list (holes a)))
                 \<or> py_in (PyList [int_val w]) wrong_answers)
              (\<lambda>w. PyList [int_val w]) (- 5) 5 [] s = Some (was, s1)" by blast
  show ?thesis
    unfolding generate_holes_question_def Let_def l
    by (simp split: prod.splits)
qed

lemma va_loop_total:
  assumes v: "- 5 \<le> v" "v \<le> 5" "of_int v \<notin> set correct"
  shows "fair 11 s \<Longrightarrow> \<forall>x \<in> set was0. \<exists>ys. x = PyList ys \<Longrightarrow>
     \<exists>was s'. wrong_answers_loop n
           (\<lambda>wrong_answers wrong.
              py_in (int_val wrong) (float_list correct) \<or> py_in (int_val wrong) wrong_answers)
           (\<lambda>wrong. PyList [int_val wrong]) (- 5) 5 was0 s = Some (was, s')"
proof (induction n arbitrary: was0 s)
  case 0
  then show ?case by simp
next
  case (Suc n)
  let ?bad = "\<lambda>wrong. py_in (int_val wrong) (float_list correct) \<or> py_in (int_val wrong) was0"
  have nb: "\<not> ?bad v"
    using v(3) int_not_in_lists[OF Suc.prems(2)]
    by (auto simp: py_in_def list_ex_iff float_list_def int_val_def)
  have fs: "fair (nat (5 - (- 5) + 1)) (stl s)" using fair_stl[OF Suc.prems(1)] by simp
  from fair_hits[OF fs v(1,2)] obtain m where "- 5 + stl s !! m mod (5 - (- 5) + 1) = v" by blast
  with nb have "\<not> ?bad (- 5 + stl s !! m mod (5 - (- 5) + 1))" by simp
  from resample_terminates[where bad = ?bad and w = "fst (randint (- 5) 5 s)", OF this]
  obtain w' j where
    r: "resample ?bad (- 5) 5 (fst (randint (- 5) 5 s)) (stl s) = Some (w', sdrop j (stl s))"
    by blast
  have f2: "fair 11 (sdrop j (stl s))" using fair_sdrop[OF fair_stl[OF Suc.prems(1)]] .
  have "\<forall>x \<in> set (was0 @ [PyList [int_val w']]). \<exists>ys. x = PyList ys" using Suc.prems(2) by auto
  from Suc.IH[OF f2 this] obtain was s' where
    "wrong_answers_loop n
           (\<lambda>wrong_answers wrong.
              py_in (int_val wrong) (float_list correct) \<or> py_in (int_val wrong) wrong_answers)
           (\<lambda>wrong. PyList [int_val wrong]) (- 5) 5 (was0 @ [PyList [int_val w']])
           (sdrop j (stl s)) = Some (was, s')" by blast
  with r show ?case by (simp add: randint_def)
qed

lemma va_question_returns:
  assumes "fair 11 s" "- 5 \<le> v" "v \<le> 5" "of_int v \<notin> set (vertical_asymptotes a)"
  shows "\<exists>q s'. generate_va_question fs fd a s = Some (q, s')"
proof -
  have "\<forall>x \<in> set ([] :: pyval list). \<exists>ys. x = PyList ys" by simp
  from va_loop_total[OF assms(2,3,4) assms(1) this, of 3]
  obtain was s1 where l: "wrong_answers_loop 3
      (\<lambda>wrong_answers wrong.
         py_in (int_val wrong) (float_list (vertical_asymptotes a))
         \<or> py_in (int_val wrong) wrong_answers)
      (\<lambda>wrong. PyList [int_val wrong]) (- 5) 5 [] s = Some (was, s1)" by blast
  show ?thesis
    unfolding generate_va_question_def Let_def l
    by (simp split: prod.splits)
qed

lemma py_eq_offset_key:
  "py_eq (PyNum (num_add c k)) x \<Longrightarrow> answer_key x - num_val c = of_int k"
  by (cases x; cases c) auto

lemma ha_loop_total:
  assumes "fair 7 s"
  shows "\<exists>was s1. wrong_answers_loop 3
                        (\<lambda>wrong_answers k.
                           py_eq (PyNum (num_add correct k)) (PyNum correct)
                           \<or> py_in (PyNum (num_add correct k)) wrong_answers)
                        (\<lambda>k. PyNum (num_add correct k)) (- 3) 3 [] s = Some (was, s1)"
proof -
  let ?bad = "\<lambda>wrong_answers k.
                           py_eq (PyNum (num_add correct k)) (PyNum correct)
                           \<or> py_in (PyNum (num_add correct k)) wrong_answers"
  have fresh: "\<exists>v. - 3 \<le> v \<and> v \<le> 3 \<and> \<not> ?bad was v" if "length was < 6" for was
  proof -
    from that have "int (length (PyNum correct # was)) < 3 - (- 3) + 1" by simp
    from fresh_in_range[OF this, of "\<lambda>k x. py_eq (PyNum (num_add correct k)) x"
        "\<lambda>x. answer_key x - num_val correct"] py_eq_offset_key
    show ?thesis by (simp add: py_in_def list_ex_iff del: py_eq.simps)
  qed
  have f: "fair (nat (3 - (- 3) + 1)) s" using assms(1) by simp
  from wrong_answers_loop_total[of 6 "- 3" 3 ?bad s "[]" 3 "\<lambda>k. PyNum (num_add correct k)",
      OF fresh f]
  show ?thesis by auto
qed

lemma ha_question_returns:
  assumes "fair 7 s"
  shows "\<exists>q s'. generate_ha_question fs fd a s = Some (q, s')"
proof (cases "horizontal_asymptote a")
  case None
  then show ?thesis using ha_question_none[OF None, of fs fd s] by blast
next
  case (Some correct)
  from ha_loop_total[OF assms, of correct] obtain was s1 where l: "wrong_answers_loop 3
                        (\<lambda>wrong_answers k.
                           py_eq (PyNum (num_add correct k)) (PyNum correct)
                           \<or> py_in (PyNum (num_add correct k)) wrong_answers)
                        (\<lambda>k. PyNum (num_add correct k)) (- 3) 3 [] s = Some (was, s1)" by blast
  show ?thesis
    unfolding generate_ha_question_def Some option.case l
    by (simp split: prod.splits)
qed

lemma multiply_factors_roots:
  "length (roots_of (fst (multiply_factors n p s))) = length (roots_of p) + n"
  by (induction n arbitrary: p s) (auto simp: generate_linear_factor_def split: prod.splits)

lemma generate_polynomial_roots:
  assumes "generate_polynomial max_deg max_fac s = Inr (p, s')" "max_fac \<le> 6"
  shows "length (roots_of p) \<le> 7"
proof -
  obtain deg s1 where d: "randint 1 max_deg s = (deg, s1)" by (cases "randint 1 max_deg s")
  obtain factors s2 where f: "randint 1 (min max_fac deg) s1 = (factors, s2)"
    by (cases "randint 1 (min max_fac deg) s1")
  obtain q s3 where q: "multiply_factors (nat factors) Const1 s2 = (q, s3)"
    by (cases "multiply_factors (nat factors) Const1 s2")
  from assms(1) have m: "1 \<le> min max_fac deg"
    by (auto simp: generate_polynomial_def d split: if_splits)
  have "factors \<le> min max_fac deg" using randint_range(2)[OF m, of s1] f by simp
  with assms(2) have "nat factors \<le> 6" by arith
  moreover have "length (roots_of q) = nat factors"
    using multiply_factors_roots[of "nat factors" Const1 s2] q by simp
  ultimately have "length (roots_of q) \<le> 6" by simp
  moreover from assms(1) have "p = q \<or> (\<exists>c k. p = Times q (Monomial c k))"
    by (auto simp: generate_polynomial_def d f q Let_def split: if_splits prod.splits)
  ultimately show ?thesis by auto
qed

lemma regenerate_denominator_source:
  "regenerate_denominator max_deg max_fac den s = Some y \<Longrightarrow>
     (case y of Inl e \<Rightarrow> True
      | Inr r \<Rightarrow> fst r = den \<or> (\<exists>t t'. generate_polynomial max_deg max_fac t = Inr (fst r, t')))"
proof (induction rule: regenerate_denominator.raw_induct[rotated 1, consumes 1])
  case (1 f max_deg max_fac den s y)
  show ?case
  proof (cases "is_zero den")
    case False
    with 1(2) show ?thesis by auto
  next
    case True
    show ?thesis
    proof (cases "generate_polynomial max_deg max_fac s")
      case (Inl e)
      with True 1(2) show ?thesis by auto
    next
      case (Inr r)
      obtain den' s' where r: "r = (den', s')" by (cases r)
      with True Inr 1(2) have "f max_deg max_fac den' s' = Some y" by simp
      from 1(1)[OF this] Inr r show ?thesis by (cases y) auto
    qed
  qed
qed

lemma config_max_factors: "difficulty_configs d = Some c \<Longrightarrow> max_factors c \<le> 6"
  by (auto simp: difficulty_configs_def split: if_splits)

lemma generate_function_roots:
  assumes "generate_function E d s = Some (Inr (fd, s'))"
  shows "length (roots_of (denominator fd)) \<le> 8"
proof -
  define cfg where "cfg = (case difficulty_configs d of Some c \<Rightarrow> c
      | None \<Rightarrow> \<lparr>max_degree = 2, max_factors = 2, holes_prob = 3 / 10\<rparr>)"
  have b: "max_factors cfg \<le> 6"
    using config_max_factors[of d] by (auto simp: cfg_def split: option.splits)
  from assms obtain s1 den0 s2 den s3 where
    "generate_polynomial (max_degree cfg) (max_factors cfg) s1 = Inr (den0, s2)"
    and r: "regenerate_denominator (max_degree cfg) (max_factors cfg) den0 s2
        = Some (Inr (den, s3))"
    and fd: "denominator fd = den \<or> (\<exists>h. denominator fd = Times den (Linear h))"
    by (auto simp: generate_function_def config_lookup cfg_def[symmetric] Let_def
        generate_linear_factor_def split: sum.splits prod.splits option.splits if_splits)
  from regenerate_denominator_source[OF r] this(1)
  obtain t t' where "generate_polynomial (max_degree cfg) (max_factors cfg) t = Inr (den, t')"
    by auto
  from generate_polynomial_roots[OF this b] fd show ?thesis by auto
qed

text \<open>After generation and analysis by the exact engine, some integer of \<open>[-5, 5]\<close>
  is not a vertical asymptote.\<close>

lemma generated_asymptotes_leave_candidate:
  assumes "generate_function exact_engine d s = Some (Inr (fd, s'))"
    and "analyze_function exact_engine fd = Inr a"
  shows "\<exists>v. - 5 \<le> v \<and> v \<le> 5 \<and> of_int v \<notin> set (vertical_asymptotes a)"
proof (rule ccontr)
  assume "\<not> ?thesis"
  then have "(of_int ` {- 5..5::int} :: rat set) \<subseteq> set (vertical_asymptotes a)" by auto
  moreover from assms(2) obtain dr nr where
    dr: "exact_solve (denominator fd) = Inr dr"
    and va: "vertical_asymptotes a = fst (classify_roots dr nr [] [])"
    by (rule analyze_function_Inr) (simp add: exact_engine_def)
  have "set (vertical_asymptotes a) \<subseteq> set (roots_of (denominator fd))"
    using dr unfolding va by (auto simp: classify_roots_sets exact_solve_def split: if_splits)
  ultimately have "(of_int ` {- 5..5::int} :: rat set) \<subseteq> set (roots_of (denominator fd))"
    by simp
  then have "card (of_int ` {- 5..5::int} :: rat set) \<le> card (set (roots_of (denominator fd)))"
    by (intro card_mono) simp_all
  also have "\<dots> \<le> length (roots_of (denominator fd))" by (rule card_length)
  also have "\<dots> \<le> 8" using assms(1) by (rule generate_function_roots)
  finally have "card (of_int ` {- 5..5::int} :: rat set) \<le> 8" .
  moreover have "card (of_int ` {- 5..5::int} :: rat set) = card {- 5..5::int}"
    by (intro card_image) (simp add: inj_on_def)
  ultimately show False by simp
qed

lemma builder_returns:
  assumes "fair 11 s" "fair 7 s" "- 5 \<le> v" "v \<le> 5"
    "of_int v \<notin> set (vertical_asymptotes a)" "k \<in> set question_types"
  shows "\<exists>builder q s'. questions k = Some builder \<and> builder fs fd a s = Some (q, s')"
proof -
  from assms(6) consider "k = ''vertical_asymptotes''" | "k = ''horizontal_asymptote''"
    | "k = ''x_intercepts''" | "k = ''holes''"
    by (auto simp: question_types_def)
  then show ?thesis
  proof cases
    case 1
    then show ?thesis
      using va_question_returns[OF assms(1,3,4,5), of fs fd] questions_lookup(1) by blast
  next
    case 2
    then show ?thesis
      using ha_question_returns[OF assms(2), of fs fd a] questions_lookup(2) by blast
  next
    case 3
    then show ?thesis
      using x_intercept_question_returns[OF assms(1), of fs fd a] questions_lookup(3) by blast
  next
    case 4
    then show ?thesis
      using holes_question_returns[OF assms(1), of fs fd a] questions_lookup(4) by blast
  qed
qed

text \<open>
  C8. Misuse is normalised. A difficulty outside \<open>1..5\<close> is treated as level 1, and
  \<open>generate_function\<close> returns a dictionary. A question type that is none of the four
  names (the string \<open>random\<close>, Python's \<^verbatim>\<open>None\<close>, anything else) makes the builder
  take one draw, pick the kind at that index modulo 4 in the list of the four
  distinct kinds, and return the question that this kind's builder returns; it does
  return one on every fair run of the random source.
\<close>

theorem caller_misuse_normalized:
  "(\<not> (1 \<le> d \<and> d \<le> 5) \<longrightarrow>
      generate_function E d s = generate_function E 1 s
      \<and> (\<exists>fd' s'. generate_function E d s = Some (Inr (fd', s'))))
   \<and> (question_type \<notin> Some ` set question_types \<and> fair 11 t \<and> fair 7 t
        \<and> (\<exists>v. - 5 \<le> v \<and> v \<le> 5 \<and> of_int v \<notin> set (vertical_asymptotes a)) \<longrightarrow>
        (\<exists>k builder q t'. k = question_types ! nat (shd t mod 4) \<and> k \<in> set question_types
           \<and> questions k = Some builder
           \<and> builder fs (fd :: 'f function_dict) a (stl t) = Some (q, t')
           \<and> generate_multiple_choice_question fs fd a question_type t = Some (q, t')))
   \<and> length question_types = 4 \<and> distinct question_types"
proof (intro conjI impI)
  assume o: "\<not> (1 \<le> d \<and> d \<le> 5)"
  then show "generate_function E d s = generate_function E 1 s"
    by (simp add: generate_function_def config_lookup config_dom[THEN iffD2])
  from generate_function_total[of E d s]
  show "\<exists>fd' s'. generate_function E d s = Some (Inr (fd', s'))" by blast
next
  assume h: "question_type \<notin> Some ` set question_types \<and> fair 11 t \<and> fair 7 t
        \<and> (\<exists>v. - 5 \<le> v \<and> v \<le> 5 \<and> of_int v \<notin> set (vertical_asymptotes a))"
  then have u: "question_type \<notin> Some ` set question_types"
    and f11: "fair 11 (stl t)" and f7: "fair 7 (stl t)"
    by (simp_all add: fair_stl)
  from h obtain v where v: "- 5 \<le> v" "v \<le> 5" "of_int v \<notin> set (vertical_asymptotes a)"
    by blast
  let ?k = "question_types ! nat (shd t mod 4)"
  have k: "?k \<in> set question_types" by (rule choice_question_types(2))
  from builder_returns[OF f11 f7 v k, of fs fd]
  obtain builder ::
    "(rat \<Rightarrow> string) \<Rightarrow> 'f function_dict \<Rightarrow> analysis \<Rightarrow> rng \<Rightarrow> (mc_question \<times> rng) option"
    and q t'
    where b: "questions ?k = Some builder" and r: "builder fs fd a (stl t) = Some (q, t')"
    by blast
  have "generate_multiple_choice_question fs fd a question_type t
      = generate_multiple_choice_question fs fd a (Some ?k) (stl t)"
    using dispatch_unknown[OF u]
    by (simp add: generate_random_question_def choice_question_types(1))
  also have "\<dots> = builder fs fd a (stl t)" using b by (rule dispatch_known)
  finally have "generate_multiple_choice_question fs fd a question_type t = Some (q, t')"
    using r by simp
  with k b r show "\<exists>k builder q t'. k = ?k \<and> k \<in> set question_types
      \<and> questions k = Some builder \<and> builder fs fd a (stl t) = Some (q, t')
      \<and> generate_multiple_choice_question fs fd a question_type t = Some (q, t')"
    by blast
next
  show "length question_types = 4" by (simp add: question_types_def)
  show "distinct question_types" by (simp add: question_types_def)
qed

theorem caller_misuse_normalized_witness:
  "\<not> (1 \<le> (7::int) \<and> (7::int) \<le> 5)
   \<and> generate_function exact_engine 7 scenario_stream = Some (Inr (scenario_dict, sconst 0))
   \<and> generate_function exact_engine 1 scenario_stream = Some (Inr (scenario_dict, sconst 0))
   \<and> None \<notin> Some ` set question_types
   \<and> fair 11 counting_stream \<and> fair 7 counting_stream
   \<and> (- 5 \<le> (0::int) \<and> (0::int) \<le> 5
        \<and> of_int 0 \<notin> set (vertical_asymptotes scenario_analysis))
   \<and> question_types ! nat (shd counting_stream mod 4) = ''vertical_asymptotes''
   \<and> (\<exists>q t'. generate_va_question float_str scenario_dict scenario_analysis
                 (stl counting_stream) = Some (q, t')
          \<and> generate_multiple_choice_question float_str scenario_dict scenario_analysis None
                 counting_stream = Some (q, t'))"
proof -
  have r: "None \<notin> Some ` set question_types" by simp
  have o: "\<not> (1 \<le> (7::int) \<and> (7::int) \<le> 5)" by simp
  have f: "fair 11 counting_stream" "fair 7 counting_stream"
    by (rule fair_counting, simp)+
  have v: "- 5 \<le> (0::int) \<and> (0::int) \<le> 5
        \<and> of_int 0 \<notin> set (vertical_asymptotes scenario_analysis)"
    by (simp add: scenario_analysis_def)
  have k: "question_types ! nat (shd counting_stream mod 4) = ''vertical_asymptotes''"
    by (simp add: question_types_def counting_stream_def)
  from v have ex: "\<exists>v. - 5 \<le> v \<and> v \<le> 5
      \<and> of_int v \<notin> set (vertical_asymptotes scenario_analysis)" by blast
  from caller_misuse_normalized[of 7 exact_engine scenario_stream None counting_stream
      scenario_analysis float_str scenario_dict] r o f ex
  have "\<exists>builder q t'. questions ''vertical_asymptotes'' = Some builder
      \<and> builder float_str scenario_dict scenario_analysis (stl counting_stream) = Some (q, t')
      \<and> generate_multiple_choice_question float_str scenario_dict scenario_analysis None
                 counting_stream = Some (q, t')"
    by (simp add: k)
  then have "\<exists>q t'. generate_va_question float_str scenario_dict scenario_analysis
                 (stl counting_stream) = Some (q, t')
          \<and> generate_multiple_choice_question float_str scenario_dict scenario_analysis None
                 counting_stream = Some (q, t')"
    by (auto simp: questions_lookup)
  with r o f v k generate_scenario
    caller_misuse_normalized[of 7 exact_engine scenario_stream None counting_stream
      scenario_analysis float_str scenario_dict]
  show ?thesis by simp
qed

end
